theory Spec2Isabelle
  imports Complex_Main "HOL-Library.AList"
begin

section \<open>BertClassifier: the classification head of keras\_nlp\<close>

text \<open>
  The development follows \<^verbatim>\<open>keras_nlp/models/bert/bert_classifier.py\<close>. The class
  \<^verbatim>\<open>BertClassifier\<close> has a constructor that wires a backbone into a classification
  head and compiles the result, a \<^verbatim>\<open>get_config\<close> method, and a class property
  \<^verbatim>\<open>presets\<close>. Python exceptions are values of a sum type; the symbolic tensors of the
  Keras functional API are terms of a datatype; Python objects that can be mutated and
  aliased (the preset dictionaries) live in an explicit store.
\<close>

subsection \<open>Exceptions\<close>

datatype py_error =
    KeyError string
  | ValueError string
  | TypeError string
  | RecursionError

subsection \<open>Layers and symbolic tensors of the functional API\<close>

text \<open>
  A Python \<^verbatim>\<open>float\<close> hyperparameter (the dropout rate, a learning rate, a standard
  deviation) is only stored and passed on by this code, never computed with; it is
  modelled by the real number its literal denotes.
\<close>

datatype initializer = TruncatedNormal real

datatype layer =
    Dropout real
  | Dense int initializer string

text \<open>A dimension is \<open>None\<close> when it is not fixed by the graph (the batch dimension).\<close>

type_synonym shape = "nat option list"

datatype ktensor =
    KInput "(string \<times> shape) list"
  | KBackbone string string nat ktensor
  | KApply layer ktensor

text \<open>
  \<open>KInput spec\<close> is a model input (for BERT a dictionary of named tensors),
  \<open>KBackbone name key width x\<close> is the output slot \<open>key\<close> of the backbone \<open>name\<close> called
  on \<open>x\<close>, whose last dimension is \<open>width\<close>, and \<open>KApply l x\<close> is the layer \<open>l\<close> called on \<open>x\<close>.
\<close>

record backbone_model =
  backbone_name :: string
  backbone_input :: ktensor
  hidden_dim :: nat
  extra_outputs :: "string list"

text \<open>
  Modelled from the spec: the backbone class (\<^verbatim>\<open>bert_backbone.py\<close>) is not part of the
  sources at hand. The spec describes a backbone as an opaque graph "exposing a named
  input and a named pooled output tensor slot" and requires that it "must expose
  \<^verbatim>\<open>.input\<close> and a \<^verbatim>\<open>"pooled_output"\<close> keyed output". Calling the backbone on a
  tensor therefore yields a dictionary that always has the key \<^verbatim>\<open>pooled_output\<close>, of
  shape (batch, hidden\_dim), besides whatever other slots the backbone has.
\<close>

definition backbone_call :: "backbone_model \<Rightarrow> ktensor \<Rightarrow> (string \<times> ktensor) list" where
  "backbone_call b x =
     AList.update ''pooled_output'' (KBackbone (backbone_name b) ''pooled_output'' (hidden_dim b) x)
       (map (\<lambda>k. (k, KBackbone (backbone_name b) k (hidden_dim b) x)) (extra_outputs b))"

text \<open>Subscripting a dictionary, \<^verbatim>\<open>d[k]\<close>, raises \<^verbatim>\<open>KeyError\<close> on a missing key.\<close>

definition getitem :: "(string \<times> 'v) list \<Rightarrow> string \<Rightarrow> py_error + 'v" where
  "getitem d k = (case map_of d k of None \<Rightarrow> Inl (KeyError k) | Some v \<Rightarrow> Inr v)"

text \<open>
  Modelled from the spec: \<^verbatim>\<open>bert_kernel_initializer\<close> is defined in
  \<^verbatim>\<open>bert_backbone.py\<close>, which is not part of the sources at hand. The spec gives it as
  "a fixed (truncated-normal, std=0.02) initialization scheme".
\<close>

definition bert_kernel_initializer :: initializer where
  "bert_kernel_initializer = TruncatedNormal (2 / 100)"

subsection \<open>The framework the constructor delegates to\<close>

text \<open>
  The argument checks of \<^verbatim>\<open>keras.layers.Dropout\<close> and \<^verbatim>\<open>keras.layers.Dense\<close> belong to
  Keras and differ between its versions, and \<^verbatim>\<open>is_xla_compatible\<close> depends on the
  platform. They are parameters of the model.
\<close>

record keras_env =
  dropout_accepts :: "real \<Rightarrow> bool"
  dense_accepts :: "int \<Rightarrow> bool"
  xla_compatible :: bool

definition keras_Dropout :: "keras_env \<Rightarrow> real \<Rightarrow> py_error + layer" where
  "keras_Dropout env rate =
     (if dropout_accepts env rate then Inr (Dropout rate) else Inl (ValueError ''rate''))"

definition keras_Dense :: "keras_env \<Rightarrow> int \<Rightarrow> initializer \<Rightarrow> string \<Rightarrow> py_error + layer" where
  "keras_Dense env units init name =
     (if dense_accepts env units then Inr (Dense units init name) else Inl (ValueError ''units''))"

subsection \<open>Compilation state\<close>

datatype loss_fn = SparseCategoricalCrossentropy bool | OtherLoss string

datatype optimizer_obj = Adam real | RMSprop | OtherOptimizer string

datatype metric_obj = SparseCategoricalAccuracy | OtherMetric string

record compile_args =
  loss :: "loss_fn option"
  optimizer :: optimizer_obj
  metrics :: "metric_obj list"
  jit_compile :: "bool option"

subsection \<open>The classifier object\<close>

datatype cfg_value =
    CInt int
  | CFloat real
  | CStr string
  | CBool bool
  | CNone
  | CObj string

record preprocessor_obj =
  preprocessor_name :: string
  preprocessor_truthy :: bool

text \<open>
  \<open>preprocessor_truthy\<close> is what Python's \<^verbatim>\<open>bool(obj)\<close> gives for the object; the
  argument \<^verbatim>\<open>None\<close> is \<open>None\<close>.
\<close>

definition py_bool :: "preprocessor_obj option \<Rightarrow> bool" where
  "py_bool p = (case p of None \<Rightarrow> False | Some obj \<Rightarrow> preprocessor_truthy obj)"

record task =
  inputs :: ktensor
  outputs :: ktensor
  include_preprocessing :: bool
  kwargs :: "(string \<times> cfg_value) list"
  compiled :: "compile_args option"

record bert_classifier = task +
  backbone :: backbone_model
  preprocessor :: "preprocessor_obj option"
  num_classes :: int
  dropout :: real

text \<open>
  Modelled from the spec: the parent constructor (\<^verbatim>\<open>Task.__init__\<close> in
  \<^verbatim>\<open>keras_nlp/models/task.py\<close>, on top of the functional \<^verbatim>\<open>keras.Model\<close>) is not part of
  the sources at hand. By the spec it "registers the resulting graph as the task object's
  callable forward pass" and threads the preprocessing "capability flag" through; the new
  object is not compiled yet.
\<close>

definition Task_init :: "ktensor \<Rightarrow> ktensor \<Rightarrow> bool \<Rightarrow> (string \<times> cfg_value) list \<Rightarrow> task" where
  "Task_init i out incl kw =
     \<lparr>inputs = i, outputs = out, include_preprocessing = incl, kwargs = kw, compiled = None\<rparr>"

text \<open>\<^verbatim>\<open>keras.Model.compile\<close> replaces the whole training configuration of the model.\<close>

definition compile :: "compile_args \<Rightarrow> bert_classifier \<Rightarrow> bert_classifier" where
  "compile args self = self\<lparr>compiled := Some args\<rparr>"

text \<open>
  \<^verbatim>\<open>BertClassifier.__init__(self, backbone, num_classes=2, dropout=0.1,
  preprocessor=None, **kwargs)\<close>, statement by statement. An exception of a callee leaves
  the constructor at once.
\<close>

definition BertClassifier_init ::
  "keras_env \<Rightarrow> backbone_model \<Rightarrow> int \<Rightarrow> real \<Rightarrow> preprocessor_obj option \<Rightarrow>
     (string \<times> cfg_value) list \<Rightarrow> py_error + bert_classifier" where
  "BertClassifier_init env b nc dr pp kw =
     (let i = backbone_input b in
      case getitem (backbone_call b i) ''pooled_output'' of
        Inl e \<Rightarrow> Inl e
      | Inr pooled0 \<Rightarrow>
      (case keras_Dropout env dr of
        Inl e \<Rightarrow> Inl e
      | Inr drop_layer \<Rightarrow>
      (let pooled = KApply drop_layer pooled0 in
       case keras_Dense env nc bert_kernel_initializer ''logits'' of
        Inl e \<Rightarrow> Inl e
      | Inr dense_layer \<Rightarrow>
      (let out = KApply dense_layer pooled;
           parent = Task_init i out (pp \<noteq> None) kw;
           self = task.extend parent
                    \<lparr>backbone = b, preprocessor = pp, num_classes = nc, dropout = dr\<rparr>
       in Inr (compile
                 \<lparr>loss = Some (SparseCategoricalCrossentropy True),
                  optimizer = Adam (5 / 100000),
                  metrics = [SparseCategoricalAccuracy],
                  jit_compile = Some (xla_compatible env)\<rparr>
                 self)))))"

text \<open>The defaults of the signature: \<^verbatim>\<open>num_classes=2, dropout=0.1\<close>.\<close>

definition default_num_classes :: int where
  "default_num_classes = 2"

definition default_dropout :: real where
  "default_dropout = 1 / 10"

subsection \<open>Reading a graph\<close>

text \<open>The layers of a graph in the order in which a forward pass runs them.\<close>

datatype step = BackboneStep string string | LayerStep layer

fun forward_steps :: "ktensor \<Rightarrow> step list" where
  "forward_steps (KInput spec) = []"
| "forward_steps (KBackbone name key width x) = forward_steps x @ [BackboneStep name key]"
| "forward_steps (KApply l x) = forward_steps x @ [LayerStep l]"

text \<open>
  Static shape inference, as Keras computes it: dropout keeps the shape of its input, a
  dense layer wants an input of rank two or more and replaces its last dimension by the
  number of units, and a backbone slot has an unknown batch dimension followed by the
  backbone's width. A dictionary of several input tensors has no shape of its own.
\<close>

fun kshape :: "ktensor \<Rightarrow> shape option" where
  "kshape (KInput spec) = (case spec of [(n, sh)] \<Rightarrow> Some sh | _ \<Rightarrow> None)"
| "kshape (KBackbone name key width x) = Some [None, Some width]"
| "kshape (KApply (Dropout rate) x) = kshape x"
| "kshape (KApply (Dense units init name) x) =
     (case kshape x of
        None \<Rightarrow> None
      | Some sh \<Rightarrow> if length sh < 2 then None else Some (butlast sh @ [Some (nat units)]))"

text \<open>The shape a tensor takes when the model is called on a batch of \<open>n\<close> examples.\<close>

definition concrete_shape :: "nat \<Rightarrow> shape \<Rightarrow> nat list" where
  "concrete_shape n sh = map (\<lambda>d. case d of None \<Rightarrow> n | Some k \<Rightarrow> k) sh"

subsection \<open>Configuration\<close>

text \<open>
  \<^verbatim>\<open>get_config\<close> takes the dictionary of \<^verbatim>\<open>super().get_config()\<close> (the parent class is not
  part of the sources at hand, so its dictionary is the parameter \<open>base\<close>) and updates it
  with the two hyperparameters, in this order. \<^verbatim>\<open>dict.update\<close> overwrites the value of a
  key that is present and appends a key that is not.
\<close>

definition get_config :: "(string \<times> cfg_value) list \<Rightarrow> bert_classifier \<Rightarrow> (string \<times> cfg_value) list" where
  "get_config base self =
     AList.update ''dropout'' (CFloat (dropout self))
       (AList.update ''num_classes'' (CInt (num_classes self)) base)"

text \<open>
  Modelled from the spec: \<^verbatim>\<open>from_config\<close> is inherited from the parent class, which is
  not part of the sources at hand. The spec calls it the "standard reconstruction
  contract": a new instance is built "from this config (plus the same backbone and
  preprocessor)", that is, the constructor is called with the entries of the dictionary as
  keyword arguments. An entry that is absent leaves the constructor's default in place;
  the entries that are not constructor parameters travel on as \<^verbatim>\<open>**kwargs\<close>.
\<close>

definition cfg_num_classes :: "(string \<times> cfg_value) list \<Rightarrow> py_error + int" where
  "cfg_num_classes cfg =
     (case map_of cfg ''num_classes'' of
        None \<Rightarrow> Inr default_num_classes
      | Some (CInt n) \<Rightarrow> Inr n
      | Some _ \<Rightarrow> Inl (TypeError ''num_classes''))"

definition cfg_dropout :: "(string \<times> cfg_value) list \<Rightarrow> py_error + real" where
  "cfg_dropout cfg =
     (case map_of cfg ''dropout'' of
        None \<Rightarrow> Inr default_dropout
      | Some (CFloat d) \<Rightarrow> Inr d
      | Some (CInt n) \<Rightarrow> Inr (of_int n)
      | Some _ \<Rightarrow> Inl (TypeError ''dropout''))"

definition cfg_kwargs :: "(string \<times> cfg_value) list \<Rightarrow> (string \<times> cfg_value) list" where
  "cfg_kwargs cfg =
     filter (\<lambda>(k, v). k \<notin> {''backbone'', ''preprocessor'', ''num_classes'', ''dropout''}) cfg"

definition from_config ::
  "keras_env \<Rightarrow> backbone_model \<Rightarrow> preprocessor_obj option \<Rightarrow> (string \<times> cfg_value) list \<Rightarrow>
     py_error + bert_classifier" where
  "from_config env b pp cfg =
     (case cfg_num_classes cfg of
        Inl e \<Rightarrow> Inl e
      | Inr nc \<Rightarrow>
      (case cfg_dropout cfg of
        Inl e \<Rightarrow> Inl e
      | Inr dr \<Rightarrow> BertClassifier_init env b nc dr pp (cfg_kwargs cfg)))"

section \<open>The preset tables\<close>

subsection \<open>Python objects in a store\<close>

text \<open>
  The preset tables are module-level dictionaries of nested dictionaries (and possibly
  lists) with string keys. A dictionary or a list is an object with an identity: it lives
  at an address of the store, other objects refer to it by that address, and it can be
  mutated in place. Numbers, strings, booleans and \<^verbatim>\<open>None\<close> are immutable and are
  stored by value. The store is the list of all objects allocated so far; allocation
  appends, so the address of a new object is the length of the store.
\<close>

type_synonym addr = nat

datatype atom = ANone | ABool bool | AInt int | AFloat real | AStr string

datatype pyval = PAtom atom | PRef addr

datatype pyobj = PDict "(string \<times> pyval) list" | PList "pyval list"

type_synonym heap = "pyobj list"

datatype container = DictOf "string list" | ListOf

fun obj_shape :: "pyobj \<Rightarrow> container" where
  "obj_shape (PDict items) = DictOf (map fst items)"
| "obj_shape (PList vs) = ListOf"

fun obj_values :: "pyobj \<Rightarrow> pyval list" where
  "obj_values (PDict items) = map snd items"
| "obj_values (PList vs) = vs"

text \<open>The container \<open>obj\<close> with its values replaced, in order, by \<open>vs\<close>.\<close>

fun obj_rebuild :: "pyobj \<Rightarrow> pyval list \<Rightarrow> pyobj" where
  "obj_rebuild (PDict items) vs = PDict (zip (map fst items) vs)"
| "obj_rebuild (PList us) vs = PList vs"

definition dict_at :: "heap \<Rightarrow> addr \<Rightarrow> (string \<times> pyval) list option" where
  "dict_at h a =
     (if a < length h then (case h ! a of PDict items \<Rightarrow> Some items | PList vs \<Rightarrow> None)
      else None)"

text \<open>
  The value of a reference, read off the store as a tree: what Python's \<^verbatim>\<open>==\<close> compares.
  The first argument bounds the nesting depth; a cyclic or deeper structure, or a
  reference to no object, has no tree.
\<close>

datatype ptree = Leaf atom | Node container "ptree list"

primrec reify :: "nat \<Rightarrow> heap \<Rightarrow> pyval \<Rightarrow> ptree option" where
  "reify 0 h v = None"
| "reify (Suc n) h v =
     (case v of
        PAtom x \<Rightarrow> Some (Leaf x)
      | PRef a \<Rightarrow>
          if a < length h
          then map_option (Node (obj_shape (h ! a))) (those (map (reify n h) (obj_values (h ! a))))
          else None)"

text \<open>The objects that can be reached from a value, and so mutated through it.\<close>

inductive reach :: "heap \<Rightarrow> pyval \<Rightarrow> addr \<Rightarrow> bool" for h :: heap and v :: pyval where
  reach_root: "v = PRef a \<Longrightarrow> reach h v a"
| reach_step: "reach h v a \<Longrightarrow> a < length h \<Longrightarrow> PRef b \<in> set (obj_values (h ! a)) \<Longrightarrow> reach h v b"

subsection \<open>\<^verbatim>\<open>copy.deepcopy\<close>\<close>

text \<open>
  \<^verbatim>\<open>deepcopy(x, memo)\<close> of the standard library: an atomic value is its own copy; an
  object already in \<open>memo\<close> is answered from there; otherwise a new empty container is
  allocated and entered into \<open>memo\<close>, then the values are copied one after the other
  (threading store and memo) and put into the new container. The recursion of the
  interpreter is bounded: the first argument is the depth that is left, and running out
  of it is the result \<open>None\<close>. A reference to no object does not occur in a Python
  store; the model answers \<open>None\<close> for it as well.
\<close>

type_synonym copy_state = "(addr \<rightharpoonup> addr) \<times> heap"

fun traverse :: "('a \<Rightarrow> 's \<Rightarrow> ('b \<times> 's) option) \<Rightarrow> 'a list \<Rightarrow> 's \<Rightarrow> ('b list \<times> 's) option" where
  "traverse f [] s = Some ([], s)"
| "traverse f (x # xs) s =
     (case f x s of
        None \<Rightarrow> None
      | Some (y, s1) \<Rightarrow>
          (case traverse f xs s1 of
             None \<Rightarrow> None
           | Some (ys, s2) \<Rightarrow> Some (y # ys, s2)))"

primrec deepcopy :: "nat \<Rightarrow> pyval \<Rightarrow> copy_state \<Rightarrow> (pyval \<times> copy_state) option" where
  "deepcopy 0 v s = None"
| "deepcopy (Suc n) v s =
     (case v of
        PAtom x \<Rightarrow> Some (v, s)
      | PRef a \<Rightarrow>
          (case fst s a of
             Some y \<Rightarrow> Some (PRef y, s)
           | None \<Rightarrow>
               if length (snd s) \<le> a then None
               else
                 (let h = snd s; y = length h; obj = h ! a in
                  case traverse (deepcopy n) (obj_values obj)
                         ((fst s)(a \<mapsto> y), h @ [obj_rebuild obj []]) of
                    None \<Rightarrow> None
                  | Some (vs, (memo', h')) \<Rightarrow>
                      Some (PRef y, (memo', h'[y := obj_rebuild obj vs])))))"

subsection \<open>The \<^verbatim>\<open>presets\<close> property\<close>

text \<open>
  The dictionary display \<^verbatim>\<open>{**d1, **d2}\<close> builds a new dictionary from the items of
  \<open>d1\<close> and then stores the items of \<open>d2\<close> into it one by one: a key that is already there
  keeps its position and gets the new value, a new key is appended. The values are not
  copied: the new dictionary refers to the same objects.
\<close>

definition dict_merge :: "(string \<times> 'v) list \<Rightarrow> (string \<times> 'v) list \<Rightarrow> (string \<times> 'v) list" where
  "dict_merge d1 d2 = fold (\<lambda>(k, v). AList.update k v) d2 d1"

text \<open>
  \<^verbatim>\<open>return copy.deepcopy({**backbone_presets, **classifier_presets})\<close>. The two tables
  are defined in \<^verbatim>\<open>bert_presets.py\<close>, which is not part of the sources at hand; they are
  the objects at the addresses \<open>backbone_presets\<close> and \<open>classifier_presets\<close> of the store,
  whatever these hold. The property returns the copy together with the store after the
  call. \<open>limit\<close> is the recursion limit of the interpreter.
\<close>

definition presets :: "nat \<Rightarrow> addr \<Rightarrow> addr \<Rightarrow> heap \<Rightarrow> py_error + (pyval \<times> heap)" where
  "presets limit backbone_presets classifier_presets h =
     (case dict_at h backbone_presets of
        None \<Rightarrow> Inl (TypeError ''backbone_presets'')
      | Some bi \<Rightarrow>
      (case dict_at h classifier_presets of
        None \<Rightarrow> Inl (TypeError ''classifier_presets'')
      | Some ci \<Rightarrow>
      (let merged = length h; h1 = h @ [PDict (dict_merge bi ci)] in
       case deepcopy limit (PRef merged) (Map.empty, h1) of
         None \<Rightarrow> Inl RecursionError
       | Some (v, (memo, h2)) \<Rightarrow> Inr (v, h2))))"

text \<open>
  Modelled from the spec: \<^verbatim>\<open>from_preset\<close> is inherited from the parent class, which is
  not part of the sources at hand. By the spec it is
  \<^verbatim>\<open>from_preset(name, num_classes, preprocessor=None)\<close>, "consulting the merged preset
  table", and an unknown name "fails with a lookup/key error at reconstruction time; no
  silent fallback". Each entry "carries enough information to instantiate a matching
  backbone"; how that is done is not described, so it is the parameter \<open>load_backbone\<close>.
\<close>

definition from_preset ::
  "keras_env \<Rightarrow> (heap \<Rightarrow> pyval \<Rightarrow> py_error + backbone_model) \<Rightarrow> nat \<Rightarrow> addr \<Rightarrow> addr \<Rightarrow> heap \<Rightarrow>
     string \<Rightarrow> int \<Rightarrow> preprocessor_obj option \<Rightarrow> py_error + (bert_classifier \<times> heap)" where
  "from_preset env load_backbone limit backbone_presets classifier_presets h name nc pp =
     (case presets limit backbone_presets classifier_presets h of
        Inl e \<Rightarrow> Inl e
      | Inr (table, h1) \<Rightarrow>
      (case table of
        PAtom x \<Rightarrow> Inl (TypeError ''presets'')
      | PRef r \<Rightarrow>
      (case dict_at h1 r of
        None \<Rightarrow> Inl (TypeError ''presets'')
      | Some items \<Rightarrow>
      (case getitem items name of
        Inl e \<Rightarrow> Inl e
      | Inr entry \<Rightarrow>
      (case load_backbone h1 entry of
        Inl e \<Rightarrow> Inl e
      | Inr b \<Rightarrow>
      (case BertClassifier_init env b nc default_dropout pp [] of
        Inl e \<Rightarrow> Inl e
      | Inr m \<Rightarrow> Inr (m, h1)))))))"

subsection \<open>What a finished copy looks like\<close>

text \<open>
  \<open>copy_in n0 P h t v\<close>: in the store \<open>h\<close> the value \<open>v\<close> has the tree \<open>t\<close>, and every
  object that is visited on the way lies at an address from \<open>n0\<close> on and outside \<open>P\<close>. While
  a copy is under way, \<open>P\<close> holds the containers that are allocated but not filled yet.
\<close>

inductive copy_in :: "nat \<Rightarrow> addr set \<Rightarrow> heap \<Rightarrow> ptree \<Rightarrow> pyval \<Rightarrow> bool"
  for n0 :: nat and P :: "addr set" and h :: heap where
  copy_leaf: "copy_in n0 P h (Leaf x) (PAtom x)"
| copy_node: "n0 \<le> y \<Longrightarrow> y < length h \<Longrightarrow> y \<notin> P \<Longrightarrow> obj_shape (h ! y) = c \<Longrightarrow>
     list_all2 (copy_in n0 P h) ts (obj_values (h ! y)) \<Longrightarrow> copy_in n0 P h (Node c ts) (PRef y)"

text \<open>
  The invariant of the memo table with respect to the source store \<open>hs\<close>: its entries
  map source objects to new objects; an entry whose copy is finished points to a true
  copy; an entry whose copy is under way belongs to an object that is strictly bigger
  than whatever is copied at the moment (bound \<open>s\<close>), so it is not looked up.
\<close>

definition memo_range :: "nat \<Rightarrow> heap \<Rightarrow> (addr \<rightharpoonup> addr) \<Rightarrow> bool" where
  "memo_range n0 h memo \<longleftrightarrow> (\<forall>a y. memo a = Some y \<longrightarrow> a < n0 \<and> n0 \<le> y \<and> y < length h)"

definition memo_done :: "nat \<Rightarrow> addr set \<Rightarrow> heap \<Rightarrow> heap \<Rightarrow> (addr \<rightharpoonup> addr) \<Rightarrow> bool" where
  "memo_done n0 P hs h memo \<longleftrightarrow>
     (\<forall>a y. memo a = Some y \<longrightarrow> y \<notin> P \<longrightarrow>
        (\<exists>k t. reify k hs (PRef a) = Some t \<and> copy_in n0 P h t (PRef y)))"

definition memo_blocked :: "addr set \<Rightarrow> heap \<Rightarrow> (addr \<rightharpoonup> addr) \<Rightarrow> nat \<Rightarrow> bool" where
  "memo_blocked P hs memo s \<longleftrightarrow>
     (\<forall>a y k t. memo a = Some y \<longrightarrow> y \<in> P \<longrightarrow> reify k hs (PRef a) = Some t \<longrightarrow> s < size t)"

definition copy_pre ::
  "nat \<Rightarrow> addr set \<Rightarrow> heap \<Rightarrow> (addr \<rightharpoonup> addr) \<Rightarrow> heap \<Rightarrow> nat \<Rightarrow> bool" where
  "copy_pre n0 P hs memo h s \<longleftrightarrow>
     n0 = length hs \<and> length hs \<le> length h \<and> take n0 h = hs \<and> (\<forall>p\<in>P. p < length h)
     \<and> memo_range n0 h memo \<and> memo_done n0 P hs h memo \<and> memo_blocked P hs memo s"

definition copy_post ::
  "nat \<Rightarrow> addr set \<Rightarrow> heap \<Rightarrow> (addr \<rightharpoonup> addr) \<Rightarrow> heap \<Rightarrow> (addr \<rightharpoonup> addr) \<Rightarrow> heap \<Rightarrow> bool" where
  "copy_post n0 P hs memo h memo' h' \<longleftrightarrow>
     (\<exists>ext. h' = h @ ext) \<and> memo \<subseteq>\<^sub>m memo' \<and> memo_range n0 h' memo'
     \<and> memo_done n0 P hs h' memo'
     \<and> (\<forall>a y. memo' a = Some y \<longrightarrow> y \<in> P \<longrightarrow> memo a = Some y)"

text \<open>
  A small registry: the configuration object at address 0 is shared by the backbone entry
  and the classifier entry, the two tables collide on the key
  \<^verbatim>\<open>bert_tiny_en_uncased\<close>, and two keys of the classifier table name the same entry.
  \<open>backbone_presets\<close> is at address 2 and \<open>classifier_presets\<close> at address 4.
\<close>

definition registry_heap :: heap where
  "registry_heap =
     [PDict [(''num_layers'', PAtom (AInt 2))],
      PDict [(''config'', PRef 0)],
      PDict [(''bert_tiny_en_uncased'', PRef 1)],
      PDict [(''config'', PRef 0), (''num_classes'', PAtom (AInt 2))],
      PDict [(''bert_tiny_en_uncased'', PRef 3), (''bert_tiny_en_uncased_sst2'', PRef 3)]]"

text \<open>
  A second registry, in which the backbone table has a key of its own besides the one it
  shares with the classifier table. \<open>backbone_presets\<close> is at address 2 and
  \<open>classifier_presets\<close> at address 4.
\<close>

definition wide_registry_heap :: heap where
  "wide_registry_heap =
     [PDict [(''num_layers'', PAtom (AInt 2))],
      PDict [(''config'', PRef 0)],
      PDict [(''bert_tiny_en_uncased'', PRef 1), (''bert_base_en'', PRef 1)],
      PDict [(''config'', PRef 0), (''num_classes'', PAtom (AInt 2))],
      PDict [(''bert_tiny_en_uncased'', PRef 3)]]"

subsection \<open>Concrete objects\<close>

text \<open>
  The backbone of the repository's classifier test (\<^verbatim>\<open>name="encoder", hidden_dim=64\<close>),
  two preprocessor objects, and three frameworks: one whose layers accept every argument,
  one with the checks of Keras 2 (\<^verbatim>\<open>0 <= rate <= 1\<close>, \<^verbatim>\<open>units >= 0\<close>) and one with
  stricter checks (\<^verbatim>\<open>0 <= rate < 1\<close>, \<^verbatim>\<open>units > 0\<close>).
\<close>

definition test_backbone :: backbone_model where
  "test_backbone =
     \<lparr>backbone_name = ''encoder'',
      backbone_input = KInput [(''token_ids'', [None, None]), (''segment_ids'', [None, None])],
      hidden_dim = 64,
      extra_outputs = [''sequence_output'']\<rparr>"

definition test_preprocessor :: preprocessor_obj where
  "test_preprocessor = \<lparr>preprocessor_name = ''f_net_preprocessor'', preprocessor_truthy = True\<rparr>"

definition falsy_preprocessor :: preprocessor_obj where
  "falsy_preprocessor = \<lparr>preprocessor_name = ''empty'', preprocessor_truthy = False\<rparr>"

definition lenient_env :: keras_env where
  "lenient_env = \<lparr>dropout_accepts = (\<lambda>r. True), dense_accepts = (\<lambda>u. True), xla_compatible = True\<rparr>"

definition keras2_env :: keras_env where
  "keras2_env =
     \<lparr>dropout_accepts = (\<lambda>r. 0 \<le> r \<and> r \<le> 1), dense_accepts = (\<lambda>u. 0 \<le> u), xla_compatible = True\<rparr>"

definition strict_env :: keras_env where
  "strict_env =
     \<lparr>dropout_accepts = (\<lambda>r. 0 \<le> r \<and> r < 1), dense_accepts = (\<lambda>u. 0 < u), xla_compatible = False\<rparr>"

section \<open>The constructor\<close>

lemma pooled_output_present:
  "getitem (backbone_call b x) ''pooled_output'' =
     Inr (KBackbone (backbone_name b) ''pooled_output'' (hidden_dim b) x)"
  by (simp add: getitem_def backbone_call_def update_conv')

text \<open>The constructor has three outcomes: one per layer that may refuse, and success.\<close>

lemma init_cases:
  "BertClassifier_init env b nc dr pp kw =
     (if \<not> dropout_accepts env dr then Inl (ValueError ''rate'')
      else if \<not> dense_accepts env nc then Inl (ValueError ''units'')
      else Inr (compile
                 \<lparr>loss = Some (SparseCategoricalCrossentropy True),
                  optimizer = Adam (5 / 100000),
                  metrics = [SparseCategoricalAccuracy],
                  jit_compile = Some (xla_compatible env)\<rparr>
                 (task.extend
                    (Task_init (backbone_input b)
                       (KApply (Dense nc bert_kernel_initializer ''logits'')
                          (KApply (Dropout dr)
                             (KBackbone (backbone_name b) ''pooled_output'' (hidden_dim b)
                                (backbone_input b))))
                       (pp \<noteq> None) kw)
                    \<lparr>backbone = b, preprocessor = pp, num_classes = nc, dropout = dr\<rparr>)))"
  by (simp add: BertClassifier_init_def pooled_output_present keras_Dropout_def keras_Dense_def
      Let_def)

lemma init_succeeds:
  assumes "dropout_accepts env dr" and "dense_accepts env nc"
  shows "\<exists>m. BertClassifier_init env b nc dr pp kw = Inr m"
  using assms by (simp add: init_cases)

lemma init_accepted:
  assumes "BertClassifier_init env b nc dr pp kw = Inr m"
  shows "dropout_accepts env dr" and "dense_accepts env nc"
  using assms by (auto simp: init_cases split: if_splits)

lemma init_fields:
  assumes "BertClassifier_init env b nc dr pp kw = Inr m"
  shows "inputs m = backbone_input b"
    and "outputs m = KApply (Dense nc bert_kernel_initializer ''logits'')
                       (KApply (Dropout dr)
                          (KBackbone (backbone_name b) ''pooled_output'' (hidden_dim b)
                             (backbone_input b)))"
    and "include_preprocessing m = (pp \<noteq> None)"
    and "kwargs m = kw"
    and "compiled m = Some \<lparr>loss = Some (SparseCategoricalCrossentropy True),
                            optimizer = Adam (5 / 100000),
                            metrics = [SparseCategoricalAccuracy],
                            jit_compile = Some (xla_compatible env)\<rparr>"
    and "backbone m = b"
    and "preprocessor m = pp"
    and "num_classes m = nc"
    and "dropout m = dr"
  using assms
  by (auto simp: init_cases compile_def Task_init_def task.extend_def split: if_splits)

text \<open>
  C1. Whenever the two layer constructors accept their arguments, construction returns a
  classifier whose input is the backbone's input and whose output is the dense layer named
  \<^verbatim>\<open>logits\<close>, with \<open>num_classes\<close> units and a truncated-normal kernel initializer of
  standard deviation 0.02, applied to the dropout layer of rate \<open>dropout\<close>, applied to the
  backbone's \<^verbatim>\<open>pooled_output\<close>. In a forward pass the backbone runs first, then dropout,
  then the dense projection. (The class docstring speaks of the dropout as "applied after
  the dense layer"; the statements of the constructor apply it before, as stated here.)
\<close>

theorem classifier_graph:
  assumes "dropout_accepts env dr" and "dense_accepts env nc"
  shows "\<exists>m. BertClassifier_init env b nc dr pp kw = Inr m
           \<and> inputs m = backbone_input b
           \<and> outputs m =
               KApply (Dense nc (TruncatedNormal (2 / 100)) ''logits'')
                 (KApply (Dropout dr)
                    (KBackbone (backbone_name b) ''pooled_output'' (hidden_dim b)
                       (backbone_input b)))
           \<and> forward_steps (outputs m) =
               forward_steps (backbone_input b) @
                 [BackboneStep (backbone_name b) ''pooled_output'',
                  LayerStep (Dropout dr),
                  LayerStep (Dense nc (TruncatedNormal (2 / 100)) ''logits'')]"
proof -
  from init_succeeds [OF assms] obtain m
    where m: "BertClassifier_init env b nc dr pp kw = Inr m" by blast
  have "inputs m = backbone_input b"
    by (rule init_fields(1) [OF m])
  moreover have out: "outputs m =
      KApply (Dense nc (TruncatedNormal (2 / 100)) ''logits'')
        (KApply (Dropout dr)
           (KBackbone (backbone_name b) ''pooled_output'' (hidden_dim b) (backbone_input b)))"
    using init_fields(2) [OF m] by (simp add: bert_kernel_initializer_def)
  moreover have "forward_steps (outputs m) =
      forward_steps (backbone_input b) @
        [BackboneStep (backbone_name b) ''pooled_output'',
         LayerStep (Dropout dr),
         LayerStep (Dense nc (TruncatedNormal (2 / 100)) ''logits'')]"
    by (simp add: out)
  ultimately show ?thesis using m by blast
qed

theorem classifier_graph_witness:
  "\<exists>m. BertClassifier_init strict_env test_backbone 4 (1 / 10) (Some test_preprocessor) [] = Inr m
     \<and> forward_steps (outputs m) =
         [BackboneStep ''encoder'' ''pooled_output'',
          LayerStep (Dropout (1 / 10)),
          LayerStep (Dense 4 (TruncatedNormal (2 / 100)) ''logits'')]"
proof -
  have a: "dropout_accepts strict_env (1 / 10)" and b: "dense_accepts strict_env 4"
    by (simp_all add: strict_env_def)
  from classifier_graph [OF a b, of test_backbone "Some test_preprocessor" "[]"]
  show ?thesis by (auto simp: test_backbone_def)
qed

text \<open>
  C2. When construction succeeds with a class count that is not negative (in particular
  for every valid one, \<open>1 \<le> num_classes\<close>), the output tensor of the model has the
  static shape (batch, num\_classes) with the batch dimension left open, so on a batch of
  any size \<open>n\<close> the output has shape \<open>[n, num_classes]\<close>: its last dimension is
  \<open>num_classes\<close> whatever the batch size.
\<close>

theorem output_last_dimension:
  assumes "BertClassifier_init env b nc dr pp kw = Inr m" and "0 \<le> nc"
  shows "\<exists>sh. kshape (outputs m) = Some sh
           \<and> sh = [None, Some (nat nc)]
           \<and> (\<forall>n. concrete_shape n sh = [n, nat nc] \<and> int (last (concrete_shape n sh)) = nc)"
  using init_fields(2) [OF assms(1)] assms(2)
  by (simp add: concrete_shape_def)

theorem output_last_dimension_witness:
  "\<exists>m. BertClassifier_init keras2_env test_backbone 4 (1 / 10) None [] = Inr m
     \<and> kshape (outputs m) = Some [None, Some 4]
     \<and> concrete_shape 2 [None, Some 4] = [2, 4]"
proof -
  obtain m where m: "BertClassifier_init keras2_env test_backbone 4 (1 / 10) None [] = Inr m"
    using init_succeeds [of keras2_env "1 / 10" 4 test_backbone None "[]"]
    by (simp add: keras2_env_def) blast
  from output_last_dimension [OF m] m show ?thesis by (auto simp: concrete_shape_def)
qed

section \<open>Configuration round trip\<close>

lemma get_config_map:
  "map_of (get_config base self) =
     (map_of base)(''num_classes'' \<mapsto> CInt (num_classes self),
                   ''dropout'' \<mapsto> CFloat (dropout self))"
  by (simp add: get_config_def update_conv')

lemma cfg_of_get_config:
  "cfg_num_classes (get_config base self) = Inr (num_classes self)"
  "cfg_dropout (get_config base self) = Inr (dropout self)"
  by (simp_all add: cfg_num_classes_def cfg_dropout_def get_config_map)

text \<open>
  C3. For a constructed classifier, \<^verbatim>\<open>get_config\<close> is the base configuration with the
  keys \<^verbatim>\<open>num_classes\<close> and \<^verbatim>\<open>dropout\<close> set to the instance's values (every other key
  keeps the base value), and rebuilding from that dictionary with the same backbone and
  preprocessor succeeds and gives a classifier with the same \<open>num_classes\<close> and
  \<open>dropout\<close>, hence the same graph and the same preprocessing flag.
\<close>

theorem get_config_round_trip:
  assumes "BertClassifier_init env b nc dr pp kw = Inr m"
  shows "map_of (get_config base m) =
           (map_of base)(''num_classes'' \<mapsto> CInt (num_classes m),
                         ''dropout'' \<mapsto> CFloat (dropout m))
         \<and> (\<exists>m'. from_config env b pp (get_config base m) = Inr m'
                \<and> num_classes m' = num_classes m \<and> dropout m' = dropout m
                \<and> outputs m' = outputs m \<and> inputs m' = inputs m
                \<and> include_preprocessing m' = include_preprocessing m)"
proof -
  have acc: "dropout_accepts env dr" "dense_accepts env nc"
    using init_accepted [OF assms] by simp_all
  let ?kw = "cfg_kwargs (get_config base m)"
  obtain m' where m': "BertClassifier_init env b nc dr pp ?kw = Inr m'"
    using init_succeeds [OF acc] by blast
  have "from_config env b pp (get_config base m) = Inr m'"
    using m' init_fields(8,9) [OF assms]
    by (simp add: from_config_def cfg_of_get_config)
  moreover have "num_classes m' = num_classes m" "dropout m' = dropout m"
      "outputs m' = outputs m" "inputs m' = inputs m"
      "include_preprocessing m' = include_preprocessing m"
    using init_fields [OF m'] init_fields [OF assms] by simp_all
  ultimately show ?thesis by (simp add: get_config_map)
qed

theorem get_config_round_trip_witness:
  "\<exists>m m'. BertClassifier_init keras2_env test_backbone 4 (3 / 10) (Some test_preprocessor) [] = Inr m
     \<and> get_config [(''name'', CStr ''bert_classifier''), (''trainable'', CBool True)] m =
         [(''name'', CStr ''bert_classifier''), (''trainable'', CBool True),
          (''num_classes'', CInt 4), (''dropout'', CFloat (3 / 10))]
     \<and> from_config keras2_env test_backbone (Some test_preprocessor)
          (get_config [(''name'', CStr ''bert_classifier''), (''trainable'', CBool True)] m) = Inr m'
     \<and> num_classes m' = 4 \<and> dropout m' = 3 / 10"
proof -
  let ?base = "[(''name'', CStr ''bert_classifier''), (''trainable'', CBool True)]"
  obtain m
    where m: "BertClassifier_init keras2_env test_backbone 4 (3 / 10) (Some test_preprocessor) [] = Inr m"
    using init_succeeds [of keras2_env "3 / 10" 4 test_backbone "Some test_preprocessor" "[]"]
    by (simp add: keras2_env_def) blast
  have nc: "num_classes m = 4" and dr: "dropout m = 3 / 10"
    using init_fields(8,9) [OF m] by simp_all
  have cfg: "get_config ?base m =
      [(''name'', CStr ''bert_classifier''), (''trainable'', CBool True),
       (''num_classes'', CInt 4), (''dropout'', CFloat (3 / 10))]"
    unfolding get_config_def nc dr by simp
  from get_config_round_trip [OF m, of ?base] obtain m'
    where "from_config keras2_env test_backbone (Some test_preprocessor) (get_config ?base m) = Inr m'"
      and "num_classes m' = num_classes m" and "dropout m' = dropout m"
    by blast
  with m cfg nc dr show ?thesis by metis
qed

section \<open>Default compilation, validation, preprocessing flag\<close>

text \<open>
  C4. Every classifier that the constructor returns is compiled: its loss is sparse
  categorical cross-entropy from logits, its optimizer Adam with learning rate 5e-5, its
  metric sparse categorical accuracy. A later call of \<^verbatim>\<open>compile\<close> replaces all of them by
  the caller's arguments and changes nothing else of the classifier.
\<close>

theorem default_compilation:
  assumes "BertClassifier_init env b nc dr pp kw = Inr m"
  shows "compiled m = Some \<lparr>loss = Some (SparseCategoricalCrossentropy True),
                            optimizer = Adam (5 / 100000),
                            metrics = [SparseCategoricalAccuracy],
                            jit_compile = Some (xla_compatible env)\<rparr>
         \<and> (\<forall>args. compiled (compile args m) = Some args
                \<and> outputs (compile args m) = outputs m
                \<and> num_classes (compile args m) = num_classes m
                \<and> dropout (compile args m) = dropout m)"
  using init_fields(5) [OF assms] by (simp add: compile_def)

theorem default_compilation_witness:
  "\<exists>m. BertClassifier_init keras2_env test_backbone 4 (1 / 10) (Some test_preprocessor) [] = Inr m
     \<and> compiled m = Some \<lparr>loss = Some (SparseCategoricalCrossentropy True),
                          optimizer = Adam (5 / 100000),
                          metrics = [SparseCategoricalAccuracy],
                          jit_compile = Some True\<rparr>
     \<and> compiled (compile \<lparr>loss = None, optimizer = RMSprop, metrics = [],
                           jit_compile = Some False\<rparr> m) =
         Some \<lparr>loss = None, optimizer = RMSprop, metrics = [], jit_compile = Some False\<rparr>"
proof -
  obtain m
    where m: "BertClassifier_init keras2_env test_backbone 4 (1 / 10) (Some test_preprocessor) [] = Inr m"
    using init_succeeds [of keras2_env "1 / 10" 4 test_backbone "Some test_preprocessor" "[]"]
    by (simp add: keras2_env_def) blast
  have x: "xla_compatible keras2_env = True"
    by (simp add: keras2_env_def)
  from default_compilation [OF m] m show ?thesis
    unfolding x by blast
qed

text \<open>
  C7. The constructor has no check of its own on \<open>num_classes\<close> or \<open>dropout\<close>. Whenever it
  fails, the exception is the one that the \<^verbatim>\<open>Dropout\<close> constructor raised for the rate or
  the one that the \<^verbatim>\<open>Dense\<close> constructor raised for the unit count; and whenever both
  layer constructors accept their argument, whatever the values are (a class count below
  one, a rate outside \<open>[0, 1)\<close>), construction succeeds and stores the values as given.
\<close>

theorem no_own_validation:
  "(\<forall>e. BertClassifier_init env b nc dr pp kw = Inl e \<longrightarrow>
        keras_Dropout env dr = Inl e
        \<or> keras_Dense env nc bert_kernel_initializer ''logits'' = Inl e)
   \<and> (dropout_accepts env dr \<and> dense_accepts env nc \<longrightarrow>
        (\<exists>m. BertClassifier_init env b nc dr pp kw = Inr m
            \<and> num_classes m = nc \<and> dropout m = dr))"
  by (auto simp: init_cases keras_Dropout_def keras_Dense_def compile_def task.extend_def)

theorem no_own_validation_witness:
  "(\<exists>m. BertClassifier_init lenient_env test_backbone (- 3) (3 / 2) None [] = Inr m
       \<and> num_classes m = - 3 \<and> dropout m = 3 / 2)
   \<and> BertClassifier_init strict_env test_backbone 0 (1 / 10) None [] = Inl (ValueError ''units'')
   \<and> keras_Dense strict_env 0 bert_kernel_initializer ''logits'' = Inl (ValueError ''units'')"
proof -
  have "dropout_accepts lenient_env (3 / 2)" and "dense_accepts lenient_env (- 3)"
    by (simp_all add: lenient_env_def)
  with no_own_validation [of lenient_env test_backbone "- 3" "3 / 2" None "[]"]
  have one: "\<exists>m. BertClassifier_init lenient_env test_backbone (- 3) (3 / 2) None [] = Inr m
       \<and> num_classes m = - 3 \<and> dropout m = 3 / 2"
    by blast
  have two: "BertClassifier_init strict_env test_backbone 0 (1 / 10) None [] = Inl (ValueError ''units'')"
    by (simp add: init_cases strict_env_def)
  have "keras_Dropout strict_env (1 / 10) \<noteq> Inl (ValueError ''units'')"
    by (simp add: keras_Dropout_def strict_env_def)
  with no_own_validation [of strict_env test_backbone 0 "1 / 10" None "[]"] two
  have "keras_Dense strict_env 0 bert_kernel_initializer ''logits'' = Inl (ValueError ''units'')"
    by blast
  with one two show ?thesis by blast
qed

text \<open>
  C9. The preprocessing flag handed to the parent constructor is true exactly when the
  \<open>preprocessor\<close> argument is not \<^verbatim>\<open>None\<close>. Python's truth value of the object plays no
  part: an object for which \<^verbatim>\<open>bool(obj)\<close> is false still switches preprocessing on.
\<close>

theorem preprocessing_flag:
  assumes "BertClassifier_init env b nc dr pp kw = Inr m"
  shows "include_preprocessing m = (pp \<noteq> None)
         \<and> (\<forall>obj. pp = Some obj \<and> \<not> py_bool pp \<longrightarrow> include_preprocessing m)"
  using init_fields(3) [OF assms] by simp

theorem preprocessing_flag_witness:
  "(\<exists>m. BertClassifier_init keras2_env test_backbone 4 (1 / 10) (Some falsy_preprocessor) [] = Inr m
       \<and> \<not> py_bool (Some falsy_preprocessor) \<and> include_preprocessing m)
   \<and> (\<exists>m. BertClassifier_init keras2_env test_backbone 4 (1 / 10) None [] = Inr m
       \<and> \<not> include_preprocessing m)"
proof -
  obtain m1
    where m1: "BertClassifier_init keras2_env test_backbone 4 (1 / 10) (Some falsy_preprocessor) [] = Inr m1"
    using init_succeeds [of keras2_env "1 / 10" 4 test_backbone "Some falsy_preprocessor" "[]"]
    by (simp add: keras2_env_def) blast
  obtain m2
    where m2: "BertClassifier_init keras2_env test_backbone 4 (1 / 10) None [] = Inr m2"
    using init_succeeds [of keras2_env "1 / 10" 4 test_backbone None "[]"]
    by (simp add: keras2_env_def) blast
  have f: "\<not> py_bool (Some falsy_preprocessor)"
    by (simp add: py_bool_def falsy_preprocessor_def)
  from preprocessing_flag [OF m1] f m1 have "include_preprocessing m1" by blast
  moreover from preprocessing_flag [OF m2] have "\<not> include_preprocessing m2" by simp
  ultimately show ?thesis using m1 m2 f by blast
qed

section \<open>Deep copies in the store\<close>

subsection \<open>Reading trees off the store\<close>

lemma those_map_Some:
  "those (map f xs) = Some ys \<longleftrightarrow> list_all2 (\<lambda>x y. f x = Some y) xs ys"
proof (induction xs arbitrary: ys)
  case Nil
  show ?case by auto
next
  case (Cons x xs)
  show ?case
  proof (cases "f x")
    case None
    then show ?thesis by (auto simp: list_all2_Cons1)
  next
    case (Some y)
    then show ?thesis using Cons.IH
      by (cases "those (map f xs)") (auto simp: list_all2_Cons1)
  qed
qed

lemma reify_Suc_Ref:
  "reify (Suc n) h (PRef a) = Some t \<longleftrightarrow>
     a < length h \<and> (\<exists>ts. t = Node (obj_shape (h ! a)) ts
        \<and> list_all2 (\<lambda>v t'. reify n h v = Some t') (obj_values (h ! a)) ts)"
  by (auto simp: those_map_Some)

lemma reify_mono: "reify n h v = Some t \<Longrightarrow> reify (Suc n) h v = Some t"
proof (induction n arbitrary: v t)
  case 0
  then show ?case by simp
next
  case (Suc n)
  show ?case
  proof (cases v)
    case (PAtom x)
    with Suc.prems show ?thesis by simp
  next
    case (PRef a)
    obtain ts where a: "a < length h" and t: "t = Node (obj_shape (h ! a)) ts"
      and l: "list_all2 (\<lambda>v t'. reify n h v = Some t') (obj_values (h ! a)) ts"
      using Suc.prems unfolding PRef reify_Suc_Ref by blast
    from l have "list_all2 (\<lambda>v t'. reify (Suc n) h v = Some t') (obj_values (h ! a)) ts"
      by (rule list_all2_mono) (rule Suc.IH)
    with a t show ?thesis unfolding PRef reify_Suc_Ref by blast
  qed
qed

lemma reify_le: "reify n h v = Some t \<Longrightarrow> n \<le> m \<Longrightarrow> reify m h v = Some t"
  by (induction m) (auto simp: le_Suc_eq dest: reify_mono simp del: reify.simps)

lemma reify_det:
  assumes "reify n h v = Some t" and "reify m h v = Some t'"
  shows "t = t'"
proof -
  have "reify (max n m) h v = Some t" "reify (max n m) h v = Some t'"
    using assms by (auto intro: reify_le)
  then show ?thesis by simp
qed

text \<open>\<open>reify\<close> looks only at the objects it reaches.\<close>

lemma reify_agree:
  assumes "reify n h v = Some t"
    and "\<And>a. a < length h \<Longrightarrow> a < length h' \<and> h' ! a = h ! a"
  shows "reify n h' v = Some t"
  using assms(1)
proof (induction n arbitrary: v t)
  case 0
  then show ?case by simp
next
  case (Suc n)
  show ?case
  proof (cases v)
    case (PAtom x)
    with Suc.prems show ?thesis by simp
  next
    case (PRef a)
    obtain ts where a: "a < length h" and t: "t = Node (obj_shape (h ! a)) ts"
      and l: "list_all2 (\<lambda>v t'. reify n h v = Some t') (obj_values (h ! a)) ts"
      using Suc.prems unfolding PRef reify_Suc_Ref by blast
    from l have "list_all2 (\<lambda>v t'. reify n h' v = Some t') (obj_values (h ! a)) ts"
      by (rule list_all2_mono) (rule Suc.IH)
    with a t assms(2) [OF a] show ?thesis unfolding PRef reify_Suc_Ref by simp
  qed
qed

lemma size_child: "t \<in> set ts \<Longrightarrow> size t < size (Node c ts)"
  by (induction ts) auto

subsection \<open>Copies are stable under changes elsewhere\<close>

inductive_cases copy_in_LeafE: "copy_in n0 P h (Leaf x) v"
inductive_cases copy_in_NodeE: "copy_in n0 P h (Node c ts) v"
inductive_cases copy_in_RefE: "copy_in n0 P h t (PRef y)"

lemma copy_in_transfer:
  assumes "copy_in n0 P h t v"
    and "\<And>a. n0 \<le> a \<Longrightarrow> a < length h \<Longrightarrow> a \<notin> P \<Longrightarrow> a < length h' \<and> a \<notin> P' \<and> h' ! a = h ! a"
  shows "copy_in n0 P' h' t v"
  using assms(1)
proof (induction rule: copy_in.induct)
  case (copy_leaf x)
  show ?case by (rule copy_in.copy_leaf)
next
  case (copy_node y c ts)
  from assms(2) [OF copy_node(1,2,3)]
  have y: "y < length h'" "y \<notin> P'" "h' ! y = h ! y" by simp_all
  from copy_node(5) have "list_all2 (copy_in n0 P' h') ts (obj_values (h ! y))"
    by (rule list_all2_mono) simp
  with y copy_node(1,4) show ?case
    by (intro copy_in.copy_node) simp_all
qed

lemma copy_in_fresh:
  assumes "copy_in n0 P h t (PRef a)"
  shows "n0 \<le> a" and "a < length h" and "a \<notin> P"
  using assms by (auto elim: copy_in_RefE)

lemma copy_in_reify:
  "reify n hs v = Some t \<Longrightarrow> copy_in n0 P h t v' \<Longrightarrow> reify n h v' = Some t"
proof (induction n arbitrary: v t v')
  case 0
  then show ?case by simp
next
  case (Suc n)
  show ?case
  proof (cases v)
    case (PAtom x)
    with Suc.prems(1) have "t = Leaf x" by simp
    with Suc.prems(2) have "v' = PAtom x" by (auto elim: copy_in_LeafE)
    then show ?thesis using \<open>t = Leaf x\<close> by simp
  next
    case (PRef a)
    obtain ts where t: "t = Node (obj_shape (hs ! a)) ts"
      and l: "list_all2 (\<lambda>v t'. reify n hs v = Some t') (obj_values (hs ! a)) ts"
      using Suc.prems(1) unfolding PRef reify_Suc_Ref by blast
    from Suc.prems(2) [unfolded t] obtain y where v': "v' = PRef y" and y: "y < length h"
      and sh: "obj_shape (h ! y) = obj_shape (hs ! a)"
      and c: "list_all2 (copy_in n0 P h) ts (obj_values (h ! y))"
      by (auto elim: copy_in_NodeE)
    have "list_all2 (\<lambda>v t'. reify n h v = Some t') (obj_values (h ! y)) ts"
      unfolding list_all2_conv_all_nth
    proof (intro conjI allI impI)
      show "length (obj_values (h ! y)) = length ts"
        using c by (simp add: list_all2_lengthD)
    next
      fix i assume i: "i < length (obj_values (h ! y))"
      then have i': "i < length ts" using c by (simp add: list_all2_lengthD)
      have "reify n hs (obj_values (hs ! a) ! i) = Some (ts ! i)"
        using l i' by (simp add: list_all2_conv_all_nth)
      moreover have "copy_in n0 P h (ts ! i) (obj_values (h ! y) ! i)"
        using c i' by (simp add: list_all2_conv_all_nth)
      ultimately show "reify n h (obj_values (h ! y) ! i) = Some (ts ! i)"
        by (rule Suc.IH)
    qed
    with y sh t show ?thesis unfolding v' reify_Suc_Ref by simp
  qed
qed

lemma copy_in_reach:
  assumes "reach h v a" and "copy_in n0 P h t v"
  shows "\<exists>t'. copy_in n0 P h t' (PRef a)"
  using assms
proof (induction rule: reach.induct)
  case (reach_root a)
  then show ?case by blast
next
  case (reach_step a b)
  then obtain t' where "copy_in n0 P h t' (PRef a)" by blast
  then obtain ts where c: "list_all2 (copy_in n0 P h) ts (obj_values (h ! a))"
    by (auto elim: copy_in_RefE)
  from reach_step(3) obtain i where i: "i < length (obj_values (h ! a))"
    and b: "obj_values (h ! a) ! i = PRef b"
    by (auto simp: in_set_conv_nth)
  from c i have "copy_in n0 P h (ts ! i) (obj_values (h ! a) ! i)"
    by (simp add: list_all2_conv_all_nth)
  with b show ?case by auto
qed

lemma reach_fresh:
  assumes "copy_in n0 P h t v" and "reach h v a"
  shows "n0 \<le> a \<and> a < length h \<and> a \<notin> P"
  using copy_in_reach [OF assms(2,1)] copy_in_fresh by blast

lemma obj_rebuild_same:
  assumes "length vs = length (obj_values obj)"
  shows "obj_shape (obj_rebuild obj vs) = obj_shape obj"
    and "obj_values (obj_rebuild obj vs) = vs"
  using assms by (cases obj; simp)+

lemma copy_post_refl:
  "copy_pre n0 P hs memo h s \<Longrightarrow> copy_post n0 P hs memo h memo h"
  unfolding copy_pre_def copy_post_def by auto

lemma copy_pre_step:
  assumes "copy_pre n0 P hs memo h s" and "copy_post n0 P hs memo h memo' h'"
  shows "copy_pre n0 P hs memo' h' s"
proof -
  from assms(2) obtain ext where h': "h' = h @ ext"
    by (auto simp: copy_post_def)
  have "memo_blocked P hs memo' s"
    using assms unfolding copy_pre_def copy_post_def memo_blocked_def by blast
  moreover have "take n0 h' = hs" "length hs \<le> length h'" "\<forall>p\<in>P. p < length h'"
    using assms(1) h' by (auto simp: copy_pre_def)
  ultimately show ?thesis
    using assms by (simp add: copy_pre_def copy_post_def)
qed

lemma copy_in_append: "copy_in n0 P h t v \<Longrightarrow> copy_in n0 P (h @ ext) t v"
  by (erule copy_in_transfer) (simp add: nth_append)

lemma copy_post_trans:
  assumes "copy_post n0 P hs memo h memo1 h1" and "copy_post n0 P hs memo1 h1 memo2 h2"
  shows "copy_post n0 P hs memo h memo2 h2"
proof -
  from assms obtain e1 e2 where "h1 = h @ e1" "h2 = h1 @ e2"
    by (auto simp: copy_post_def)
  then have "h2 = h @ (e1 @ e2)" by simp
  then have "\<exists>ext. h2 = h @ ext" by blast
  moreover have "memo \<subseteq>\<^sub>m memo2"
    using assms by (auto simp: copy_post_def intro: map_le_trans)
  moreover have "\<forall>a y. memo2 a = Some y \<longrightarrow> y \<in> P \<longrightarrow> memo a = Some y"
    using assms unfolding copy_post_def by blast
  ultimately show ?thesis
    using assms(2) by (simp add: copy_post_def)
qed

subsection \<open>Correctness of \<open>deepcopy\<close>\<close>

text \<open>
  If the source value has a tree within the depth that is left, \<open>deepcopy\<close> returns; it
  only appends to the store; the value it returns is a copy with that tree, built from new
  objects only; and the memo table keeps its invariant. The list of values of a container
  is handled first, given the statement for its elements.
\<close>

lemma traverse_deepcopy:
  assumes step: "\<forall>v t s P memo h. reify n hs v = Some t \<longrightarrow> size t \<le> s \<longrightarrow>
        copy_pre n0 P hs memo h s \<longrightarrow>
        (\<exists>v' memo' h'. deepcopy n v (memo, h) = Some (v', (memo', h'))
          \<and> copy_in n0 P h' t v' \<and> copy_post n0 P hs memo h memo' h')"
  shows "list_all2 (\<lambda>v t. reify n hs v = Some t) vs ts \<Longrightarrow> \<forall>t\<in>set ts. size t \<le> s \<Longrightarrow>
        copy_pre n0 P hs memo h s \<Longrightarrow>
        \<exists>vs' memo' h'. traverse (deepcopy n) vs (memo, h) = Some (vs', (memo', h'))
          \<and> list_all2 (copy_in n0 P h') ts vs' \<and> copy_post n0 P hs memo h memo' h'"
proof (induction vs arbitrary: ts memo h)
  case Nil
  then have "ts = []" by simp
  with copy_post_refl [OF Nil(3)] show ?case by simp
next
  case (Cons v vs)
  from Cons.prems(1) obtain t ts' where ts: "ts = t # ts'"
    and r: "reify n hs v = Some t"
    and l: "list_all2 (\<lambda>v t. reify n hs v = Some t) vs ts'"
    by (auto simp: list_all2_Cons1)
  from Cons.prems(2) ts have st: "size t \<le> s" and sts: "\<forall>t\<in>set ts'. size t \<le> s"
    by simp_all
  from step r st Cons.prems(3) obtain v' memo1 h1
    where d: "deepcopy n v (memo, h) = Some (v', (memo1, h1))"
      and c: "copy_in n0 P h1 t v'"
      and p1: "copy_post n0 P hs memo h memo1 h1"
    by blast
  have pre1: "copy_pre n0 P hs memo1 h1 s"
    by (rule copy_pre_step [OF Cons.prems(3) p1])
  from Cons.IH [OF l sts pre1] obtain vs' memo2 h2
    where tr: "traverse (deepcopy n) vs (memo1, h1) = Some (vs', (memo2, h2))"
      and cs: "list_all2 (copy_in n0 P h2) ts' vs'"
      and p2: "copy_post n0 P hs memo1 h1 memo2 h2"
    by blast
  from p2 obtain ext where "h2 = h1 @ ext" by (auto simp: copy_post_def)
  with c have c2: "copy_in n0 P h2 t v'" by (simp add: copy_in_append)
  have "traverse (deepcopy n) (v # vs) (memo, h) = Some (v' # vs', (memo2, h2))"
    using d tr by simp
  moreover have "list_all2 (copy_in n0 P h2) ts (v' # vs')"
    using c2 cs ts by simp
  moreover have "copy_post n0 P hs memo h memo2 h2"
    by (rule copy_post_trans [OF p1 p2])
  ultimately show ?case by blast
qed

lemma deepcopy_fresh_object:
  assumes tr: "traverse (deepcopy n) (obj_values (h ! a)) (memo(a \<mapsto> length h), h @ [obj_rebuild (h ! a) []])
                 = Some (vs', (memo', h'))"
    and "memo a = None" and "a < length h"
  shows "deepcopy (Suc n) (PRef a) (memo, h)
           = Some (PRef (length h), (memo', h'[length h := obj_rebuild (h ! a) vs']))"
  using assms by (simp add: Let_def)

lemma deepcopy_correct:
  "reify n hs v = Some t \<Longrightarrow> size t \<le> s \<Longrightarrow> copy_pre n0 P hs memo h s \<Longrightarrow>
     \<exists>v' memo' h'. deepcopy n v (memo, h) = Some (v', (memo', h'))
       \<and> copy_in n0 P h' t v' \<and> copy_post n0 P hs memo h memo' h'"
proof (induction n arbitrary: v t s P memo h)
  case 0
  then show ?case by simp
next
  case (Suc n)
  note pre = Suc.prems(3)
  show ?case
  proof (cases v)
    case (PAtom x)
    with Suc.prems(1) have "t = Leaf x" by simp
    then show ?thesis
      using PAtom copy_post_refl [OF pre] by (auto intro: copy_in.copy_leaf)
  next
    case (PRef a)
    note r = Suc.prems(1) [unfolded PRef]
    obtain ts where a: "a < length hs" and t: "t = Node (obj_shape (hs ! a)) ts"
      and l: "list_all2 (\<lambda>v t'. reify n hs v = Some t') (obj_values (hs ! a)) ts"
      using r unfolding reify_Suc_Ref by blast
    from pre have n0: "n0 = length hs" and len: "length hs \<le> length h"
      and tk: "take n0 h = hs" and Pb: "\<forall>p\<in>P. p < length h"
      and mr: "memo_range n0 h memo" and md: "memo_done n0 P hs h memo"
      and mb: "memo_blocked P hs memo s"
      unfolding copy_pre_def by blast+
    show ?thesis
    proof (cases "memo a")
      case (Some y)
      have "y \<notin> P"
      proof
        assume "y \<in> P"
        with mb Some r have "s < size t" unfolding memo_blocked_def by blast
        with Suc.prems(2) show False by simp
      qed
      with md Some obtain k t' where "reify k hs (PRef a) = Some t'"
        and c: "copy_in n0 P h t' (PRef y)"
        unfolding memo_done_def by blast
      with r have "t' = t" by (blast intro: reify_det)
      with c have "copy_in n0 P h t (PRef y)" by simp
      moreover have "deepcopy (Suc n) v (memo, h) = Some (PRef y, (memo, h))"
        using Some PRef by simp
      ultimately show ?thesis using copy_post_refl [OF pre] by blast
    next
      case None
      let ?y = "length h"
      let ?obj = "hs ! a"
      let ?h1 = "h @ [obj_rebuild ?obj []]"
      let ?memo1 = "memo(a \<mapsto> ?y)"
      let ?P1 = "insert ?y P"
      let ?s1 = "size t - 1"
      have ah: "a < length h"
        using a len by simp
      have "take n0 h ! a = h ! a"
        using a n0 by simp
      then have ha: "h ! a = ?obj"
        unfolding tk by simp
      have tpos: "0 < size t" by (simp add: t)
      have mr1: "memo_range n0 ?h1 ?memo1"
        unfolding memo_range_def
      proof (intro allI impI)
        fix a' y' assume m: "?memo1 a' = Some y'"
        show "a' < n0 \<and> n0 \<le> y' \<and> y' < length ?h1"
        proof (cases "a' = a")
          case True
          with m a n0 len show ?thesis by auto
        next
          case False
          with m have "memo a' = Some y'" by simp
          with mr have "a' < n0 \<and> n0 \<le> y' \<and> y' < length h"
            unfolding memo_range_def by blast
          then show ?thesis by simp
        qed
      qed
      have md1: "memo_done n0 ?P1 hs ?h1 ?memo1"
        unfolding memo_done_def
      proof (intro allI impI)
        fix a' y' assume m: "?memo1 a' = Some y'" and y': "y' \<notin> ?P1"
        then have "a' \<noteq> a" by auto
        with m have "memo a' = Some y'" by simp
        moreover from y' have "y' \<notin> P" by simp
        ultimately obtain k t' where k: "reify k hs (PRef a') = Some t'"
          and c: "copy_in n0 P h t' (PRef y')"
          using md unfolding memo_done_def by blast
        from c have "copy_in n0 ?P1 ?h1 t' (PRef y')"
          by (rule copy_in_transfer) (simp add: nth_append)
        with k show "\<exists>k t. reify k hs (PRef a') = Some t \<and> copy_in n0 ?P1 ?h1 t (PRef y')"
          by blast
      qed
      have mb1: "memo_blocked ?P1 hs ?memo1 ?s1"
        unfolding memo_blocked_def
      proof (intro allI impI)
        fix a' y' k t'
        assume m: "?memo1 a' = Some y'" and y': "y' \<in> ?P1"
          and k: "reify k hs (PRef a') = Some t'"
        show "?s1 < size t'"
        proof (cases "a' = a")
          case True
          with k r have "t' = t" by (blast intro: reify_det)
          with tpos show ?thesis by simp
        next
          case False
          with m have m': "memo a' = Some y'" by simp
          with mr have "y' < length h" by (simp add: memo_range_def)
          with y' have "y' \<in> P" by simp
          with mb m' k have "s < size t'" unfolding memo_blocked_def by blast
          with Suc.prems(2) show ?thesis by simp
        qed
      qed
      have pre1: "copy_pre n0 ?P1 hs ?memo1 ?h1 ?s1"
        unfolding copy_pre_def using n0 len tk Pb mr1 md1 mb1 by auto
      have sz: "\<forall>t'\<in>set ts. size t' \<le> ?s1"
      proof
        fix t' assume "t' \<in> set ts"
        then have "size t' < size t" unfolding t by (rule size_child)
        then show "size t' \<le> ?s1" by simp
      qed
      have step: "\<forall>v t s P memo h. reify n hs v = Some t \<longrightarrow> size t \<le> s \<longrightarrow>
          copy_pre n0 P hs memo h s \<longrightarrow>
          (\<exists>v' memo' h'. deepcopy n v (memo, h) = Some (v', (memo', h'))
            \<and> copy_in n0 P h' t v' \<and> copy_post n0 P hs memo h memo' h')"
        by (intro allI impI) (rule Suc.IH)
      from traverse_deepcopy [where n = n and hs = hs and n0 = n0 and P = ?P1 and s = ?s1
          and vs = "obj_values ?obj" and ts = ts and memo = ?memo1 and h = ?h1,
          OF step l sz pre1]
      obtain vs' memo' h'
        where tr: "traverse (deepcopy n) (obj_values ?obj) (?memo1, ?h1) = Some (vs', (memo', h'))"
          and cs: "list_all2 (copy_in n0 ?P1 h') ts vs'"
          and post1: "copy_post n0 ?P1 hs ?memo1 ?h1 memo' h'"
        by blast
      from post1 obtain ext where h': "h' = ?h1 @ ext"
        and le1: "?memo1 \<subseteq>\<^sub>m memo'"
        and mr': "memo_range n0 h' memo'"
        and md': "memo_done n0 ?P1 hs h' memo'"
        and old: "\<forall>a' y'. memo' a' = Some y' \<longrightarrow> y' \<in> ?P1 \<longrightarrow> ?memo1 a' = Some y'"
        unfolding copy_post_def by blast
      let ?new = "obj_rebuild ?obj vs'"
      let ?hf = "h'[?y := ?new]"
      have hf: "?hf = h @ (?new # ext)"
        by (simp add: h' list_update_append)
      have res: "deepcopy (Suc n) v (memo, h) = Some (PRef ?y, (memo', ?hf))"
        unfolding PRef using deepcopy_fresh_object [of n h a memo vs' memo' h'] tr None ah ha
        by simp
      have xfer: "\<And>t' w. copy_in n0 ?P1 h' t' w \<Longrightarrow> copy_in n0 P ?hf t' w"
        by (erule copy_in_transfer) auto
      have lenvs: "length vs' = length (obj_values ?obj)"
        using cs l by (simp add: list_all2_lengthD)
      have yP: "?y \<notin> P" using Pb by auto
      have hfy: "?hf ! ?y = ?new" by (simp add: hf)
      have "list_all2 (copy_in n0 P ?hf) ts vs'"
        using cs by (rule list_all2_mono) (rule xfer)
      then have "list_all2 (copy_in n0 P ?hf) ts (obj_values (?hf ! ?y))"
        unfolding hfy by (simp add: obj_rebuild_same [OF lenvs])
      moreover have "obj_shape (?hf ! ?y) = obj_shape ?obj"
        unfolding hfy by (simp add: obj_rebuild_same [OF lenvs])
      moreover have "n0 \<le> ?y" "?y < length ?hf"
        using n0 len by (simp_all add: hf)
      ultimately have croot: "copy_in n0 P ?hf t (PRef ?y)"
        unfolding t using yP by (intro copy_in.copy_node) 
      have "memo \<subseteq>\<^sub>m ?memo1" using None by (auto simp: map_le_def)
      then have le: "memo \<subseteq>\<^sub>m memo'" using le1 by (rule map_le_trans)
      have mrf: "memo_range n0 ?hf memo'"
        using mr' by (simp add: memo_range_def)
      have mdf: "memo_done n0 P hs ?hf memo'"
        unfolding memo_done_def
      proof (intro allI impI)
        fix a' y' assume m: "memo' a' = Some y'" and y': "y' \<notin> P"
        show "\<exists>k t. reify k hs (PRef a') = Some t \<and> copy_in n0 P ?hf t (PRef y')"
        proof (cases "y' = ?y")
          case True
          with old m have m1: "?memo1 a' = Some ?y" by simp
          have "a' = a"
          proof (rule ccontr)
            assume "a' \<noteq> a"
            with m1 have "memo a' = Some ?y" by simp
            with mr show False by (auto simp: memo_range_def)
          qed
          with r croot True show ?thesis by blast
        next
          case False
          with y' have "y' \<notin> ?P1" by simp
          with md' m obtain k t' where "reify k hs (PRef a') = Some t'"
            and "copy_in n0 ?P1 h' t' (PRef y')"
            unfolding memo_done_def by blast
          with xfer show ?thesis by blast
        qed
      qed
      have oldf: "\<forall>a' y'. memo' a' = Some y' \<longrightarrow> y' \<in> P \<longrightarrow> memo a' = Some y'"
      proof (intro allI impI)
        fix a' y' assume m: "memo' a' = Some y'" and y': "y' \<in> P"
        with old have m1: "?memo1 a' = Some y'" by simp
        from y' yP have "y' \<noteq> ?y" by auto
        with m1 show "memo a' = Some y'" by (auto split: if_splits)
      qed
      have "copy_post n0 P hs memo h memo' ?hf"
        unfolding copy_post_def using hf le mrf mdf oldf by blast
      with res croot show ?thesis by blast
    qed
  qed
qed

subsection \<open>Merging two dictionaries\<close>

lemma dict_merge_Cons: "dict_merge d1 ((k, v) # d2) = dict_merge (AList.update k v d1) d2"
  by (simp add: dict_merge_def)

lemma dict_merge_Nil: "dict_merge d1 [] = d1"
  by (simp add: dict_merge_def)

lemma dict_merge_keys: "fst ` set (dict_merge d1 d2) = fst ` set d1 \<union> fst ` set d2"
proof (induction d2 arbitrary: d1)
  case Nil
  show ?case by (simp add: dict_merge_Nil)
next
  case (Cons x d2)
  obtain k v where x: "x = (k, v)" by (cases x)
  show ?case unfolding x dict_merge_Cons Cons.IH by (auto simp: dom_update)
qed

lemma update_values: "snd ` set (AList.update k v al) \<subseteq> insert v (snd ` set al)"
  by (induction al) auto

lemma dict_merge_values: "snd ` set (dict_merge d1 d2) \<subseteq> snd ` set d1 \<union> snd ` set d2"
proof (induction d2 arbitrary: d1)
  case Nil
  show ?case by (simp add: dict_merge_Nil)
next
  case (Cons x d2)
  obtain k v where x: "x = (k, v)" by (cases x)
  have "snd ` set (dict_merge (AList.update k v d1) d2)
          \<subseteq> snd ` set (AList.update k v d1) \<union> snd ` set d2"
    by (rule Cons.IH)
  also have "\<dots> \<subseteq> insert v (snd ` set d1) \<union> snd ` set d2"
    using update_values [of k v d1] by blast
  finally show ?case unfolding x dict_merge_Cons by auto
qed

lemma dict_merge_other:
  "k \<notin> fst ` set d2 \<Longrightarrow> map_of (dict_merge d1 d2) k = map_of d1 k"
proof (induction d2 arbitrary: d1)
  case Nil
  show ?case by (simp add: dict_merge_Nil)
next
  case (Cons x d2)
  obtain k' v where x: "x = (k', v)" by (cases x)
  from Cons.prems have "k \<noteq> k'" and "k \<notin> fst ` set d2" by (auto simp: x)
  then show ?case unfolding x dict_merge_Cons by (simp add: Cons.IH update_conv')
qed

lemma dict_merge_second:
  "distinct (map fst d2) \<Longrightarrow> map_of d2 k = Some w \<Longrightarrow> map_of (dict_merge d1 d2) k = Some w"
proof (induction d2 arbitrary: d1)
  case Nil
  then show ?case by simp
next
  case (Cons x d2)
  obtain k' v where x: "x = (k', v)" by (cases x)
  from Cons.prems(1) have d: "distinct (map fst d2)" and nk: "k' \<notin> fst ` set d2"
    by (auto simp: x)
  show ?case
  proof (cases "k = k'")
    case True
    with Cons.prems(2) have "w = v" by (simp add: x)
    with True nk show ?thesis
      unfolding x dict_merge_Cons by (simp add: dict_merge_other update_conv')
  next
    case False
    with Cons.prems(2) have "map_of d2 k = Some w" by (simp add: x)
    then show ?thesis unfolding x dict_merge_Cons by (rule Cons.IH [OF d])
  qed
qed

lemma list_all2_exists:
  "\<forall>x\<in>set xs. \<exists>y. R x y \<Longrightarrow> \<exists>ys. list_all2 R xs ys"
proof (induction xs)
  case Nil
  show ?case by simp
next
  case (Cons x xs)
  then obtain y ys where "R x y" and "list_all2 R xs ys" by auto
  then have "list_all2 R (x # xs) (y # ys)" by simp
  then show ?case by blast
qed

lemma map_of_zip_rel:
  "length ks = length xs \<Longrightarrow> list_all2 R xs ys \<Longrightarrow> map_of (zip ks xs) k = Some x \<Longrightarrow>
     \<exists>y. map_of (zip ks ys) k = Some y \<and> R x y"
proof (induction ks arbitrary: xs ys)
  case Nil
  then show ?case by simp
next
  case (Cons k' ks)
  from Cons.prems(1) obtain x' xs' where xs: "xs = x' # xs'" and l: "length ks = length xs'"
    by (cases xs) auto
  from Cons.prems(2) xs obtain y' ys' where ys: "ys = y' # ys'" and r: "R x' y'"
    and rs: "list_all2 R xs' ys'"
    by (auto simp: list_all2_Cons1)
  show ?case
  proof (cases "k = k'")
    case True
    with Cons.prems(3) xs have "x = x'" by simp
    with True r ys show ?thesis by simp
  next
    case False
    with Cons.prems(3) xs have "map_of (zip ks xs') k = Some x" by simp
    from Cons.IH [OF l rs this] False ys show ?thesis by simp
  qed
qed

lemma dict_at_Some:
  "dict_at h a = Some items \<longleftrightarrow> a < length h \<and> h ! a = PDict items"
  by (auto simp: dict_at_def split: pyobj.splits)

lemma dict_values_reify:
  assumes "dict_at h a = Some items" and "reify (Suc n) h (PRef a) = Some t"
  shows "\<forall>v\<in>set (map snd items). \<exists>t'. reify n h v = Some t'"
proof -
  from assms(1) have a: "a < length h" "h ! a = PDict items"
    by (simp_all add: dict_at_Some)
  from assms(2) obtain ts
    where "list_all2 (\<lambda>v t'. reify n h v = Some t') (obj_values (h ! a)) ts"
    unfolding reify_Suc_Ref by blast
  then have l: "list_all2 (\<lambda>v t'. reify n h v = Some t') (map snd items) ts"
    by (simp add: a)
  show ?thesis
  proof
    fix v assume "v \<in> set (map snd items)"
    then obtain i where i: "i < length (map snd items)" and v: "map snd items ! i = v"
      unfolding in_set_conv_nth by blast
    from list_all2_nthD [OF l i] v show "\<exists>t'. reify n h v = Some t'" by blast
  qed
qed

lemma shape_DictOf:
  "obj_shape obj = DictOf ks \<Longrightarrow> \<exists>items. obj = PDict items \<and> map fst items = ks"
  by (cases obj) auto

text \<open>Everything the later theorems need to know about one call of presets.\<close>

lemma presets_result:
  assumes bi: "dict_at h0 bp = Some bi" and ci: "dict_at h0 cp = Some ci"
    and rb: "reify limit h0 (PRef bp) = Some tb" and rc: "reify limit h0 (PRef cp) = Some tc"
  shows "\<exists>r h1 ri n ts ext. limit = Suc n
           \<and> presets limit bp cp h0 = Inr (PRef r, h1)
           \<and> h1 = h0 @ PDict (dict_merge bi ci) # ext
           \<and> r < length h1 \<and> h1 ! r = PDict ri
           \<and> map fst ri = map fst (dict_merge bi ci)
           \<and> list_all2 (\<lambda>v t. reify n h0 v = Some t) (map snd (dict_merge bi ci)) ts
           \<and> list_all2 (copy_in (Suc (length h0)) {} h1) ts (map snd ri)
           \<and> copy_in (Suc (length h0)) {} h1 (Node (DictOf (map fst (dict_merge bi ci))) ts) (PRef r)
           \<and> reify limit h1 (PRef r) = Some (Node (DictOf (map fst (dict_merge bi ci))) ts)"
proof -
  let ?m = "dict_merge bi ci"
  let ?hs = "h0 @ [PDict ?m]"
  let ?n0 = "Suc (length h0)"
  from rb obtain n where limit: "limit = Suc n" by (cases limit) auto
  have vb: "\<forall>v\<in>set (map snd bi). \<exists>t'. reify n h0 v = Some t'"
    using dict_values_reify [OF bi] rb limit by simp
  have vc: "\<forall>v\<in>set (map snd ci). \<exists>t'. reify n h0 v = Some t'"
    using dict_values_reify [OF ci] rc limit by simp
  have "set (map snd ?m) \<subseteq> set (map snd bi) \<union> set (map snd ci)"
    using dict_merge_values [of bi ci] by simp
  with vb vc have "\<forall>v\<in>set (map snd ?m). \<exists>t'. reify n h0 v = Some t'"
    by blast
  then have "\<exists>ts. list_all2 (\<lambda>v t. reify n h0 v = Some t) (map snd ?m) ts"
    by (rule list_all2_exists)
  then obtain ts where ts: "list_all2 (\<lambda>v t. reify n h0 v = Some t) (map snd ?m) ts" ..
  have agree: "\<And>v t. reify n h0 v = Some t \<Longrightarrow> reify n ?hs v = Some t"
    by (erule reify_agree) (simp add: nth_append)
  have "list_all2 (\<lambda>v t. reify n ?hs v = Some t) (map snd ?m) ts"
    using ts by (rule list_all2_mono) (rule agree)
  then have rs: "reify limit ?hs (PRef (length h0)) = Some (Node (DictOf (map fst ?m)) ts)"
    unfolding limit reify_Suc_Ref by simp
  let ?T = "Node (DictOf (map fst ?m)) ts"
  have pre: "copy_pre ?n0 {} ?hs Map.empty ?hs (size ?T)"
    by (simp add: copy_pre_def memo_range_def memo_done_def memo_blocked_def)
  from deepcopy_correct [OF rs order_refl pre] obtain v' memo' h1
    where d: "deepcopy limit (PRef (length h0)) (Map.empty, ?hs) = Some (v', (memo', h1))"
      and c: "copy_in ?n0 {} h1 ?T v'"
      and post: "copy_post ?n0 {} ?hs Map.empty ?hs memo' h1"
    by blast
  from post obtain ext where "h1 = ?hs @ ext" by (auto simp: copy_post_def)
  then have h1: "h1 = h0 @ PDict ?m # ext" by simp
  from c obtain r where v': "v' = PRef r" and r: "r < length h1"
    and sh: "obj_shape (h1 ! r) = DictOf (map fst ?m)"
    and cs: "list_all2 (copy_in ?n0 {} h1) ts (obj_values (h1 ! r))"
    by (auto elim: copy_in_NodeE)
  from shape_DictOf [OF sh] obtain ri where ri: "h1 ! r = PDict ri"
    and ks: "map fst ri = map fst ?m" by blast
  have p: "presets limit bp cp h0 = Inr (PRef r, h1)"
    using bi ci d v' by (simp add: presets_def Let_def)
  have "reify limit h1 (PRef r) = Some ?T"
    using copy_in_reify [OF rs] c v' by simp
  with limit p h1 r ri ks ts cs c v' show ?thesis
    by (intro exI [of _ r] exI [of _ h1] exI [of _ ri] exI [of _ n] exI [of _ ts] exI [of _ ext])
      simp
qed

section \<open>The merged preset table\<close>

text \<open>
  A later call of \<open>presets\<close>, in any store that still holds the registry objects
  unchanged, returns a table of the same value.
\<close>

lemma presets_again:
  assumes bi: "dict_at h0 bp = Some bi" and ci: "dict_at h0 cp = Some ci"
    and rb: "reify limit h0 (PRef bp) = Some tb" and rc: "reify limit h0 (PRef cp) = Some tc"
    and ts: "list_all2 (\<lambda>v t. reify n h0 v = Some t) (map snd (dict_merge bi ci)) ts"
    and limit: "limit = Suc n"
    and t2: "take (length h0) h2 = h0"
  shows "\<exists>r' h3. presets limit bp cp h2 = Inr (PRef r', h3)
           \<and> reify limit h3 (PRef r') = Some (Node (DictOf (map fst (dict_merge bi ci))) ts)"
proof -
  let ?m = "dict_merge bi ci"
  have "length (take (length h0) h2) = length h0"
    by (simp only: t2)
  then have len: "length h0 \<le> length h2" by simp
  have ag: "\<And>a. a < length h0 \<Longrightarrow> a < length h2 \<and> h2 ! a = h0 ! a"
  proof -
    fix a assume a: "a < length h0"
    then have "take (length h0) h2 ! a = h2 ! a" by simp
    with a len show "a < length h2 \<and> h2 ! a = h0 ! a" by (simp add: t2)
  qed
  have bi2: "dict_at h2 bp = Some bi" and ci2: "dict_at h2 cp = Some ci"
    using bi ci ag by (auto simp: dict_at_Some)
  have rb2: "reify limit h2 (PRef bp) = Some tb"
    by (rule reify_agree [OF rb ag])
  have rc2: "reify limit h2 (PRef cp) = Some tc"
    by (rule reify_agree [OF rc ag])
  from presets_result [OF bi2 ci2 rb2 rc2] obtain r' h3 n' ts'
    where l': "limit = Suc n'"
      and p: "presets limit bp cp h2 = Inr (PRef r', h3)"
      and ts': "list_all2 (\<lambda>v t. reify n' h2 v = Some t) (map snd ?m) ts'"
      and r3: "reify limit h3 (PRef r') = Some (Node (DictOf (map fst ?m)) ts')"
    by blast
  from l' limit have n': "n' = n" by simp
  have "list_all2 (\<lambda>v t. reify n h2 v = Some t) (map snd ?m) ts"
    using ts by (rule list_all2_mono) (erule reify_agree, rule ag)
  then have "those (map (reify n h2) (map snd ?m)) = Some ts"
    by (simp only: those_map_Some)
  moreover from ts' have "those (map (reify n h2) (map snd ?m)) = Some ts'"
    unfolding n' by (simp only: those_map_Some)
  ultimately have "ts' = ts" by simp
  with p r3 show ?thesis by blast
qed

text \<open>
  An entry of the merged dictionary, read in the table that \<open>presets\<close> returned, has
  the tree that the entry has in the registry.
\<close>

lemma merged_entry_copied:
  assumes ks: "map fst ri = map fst m"
    and ts: "list_all2 (\<lambda>v t. reify n h0 v = Some t) (map snd m) ts"
    and cs: "list_all2 (copy_in n0 P h1) ts (map snd ri)"
    and mk: "map_of m k = Some w"
  shows "\<exists>w' tw. map_of ri k = Some w' \<and> reify (Suc n) h0 w = Some tw
           \<and> reify (Suc n) h1 w' = Some tw"
proof -
  let ?R = "\<lambda>v v'. \<exists>t. reify n h0 v = Some t \<and> copy_in n0 P h1 t v'"
  have rel: "list_all2 ?R (map snd m) (map snd ri)"
    unfolding list_all2_conv_all_nth
  proof (intro conjI allI impI)
    show "length (map snd m) = length (map snd ri)"
      using arg_cong [OF ks, of length] by simp
  next
    fix i assume i: "i < length (map snd m)"
    then have i': "i < length ts" using list_all2_lengthD [OF ts] by simp
    from list_all2_nthD [OF ts i] list_all2_nthD [OF cs i']
    show "\<exists>t. reify n h0 (map snd m ! i) = Some t \<and> copy_in n0 P h1 t (map snd ri ! i)"
      by blast
  qed
  have mk': "map_of (zip (map fst m) (map snd m)) k = Some w"
    using mk by (simp add: zip_map_fst_snd)
  from map_of_zip_rel [OF _ rel mk'] obtain w' tw
    where w': "map_of (zip (map fst m) (map snd ri)) k = Some w'"
      and tw: "reify n h0 w = Some tw" and cw: "copy_in n0 P h1 tw w'"
    by auto
  have "zip (map fst m) (map snd ri) = ri"
    unfolding ks [symmetric] by (simp add: zip_map_fst_snd)
  with w' have "map_of ri k = Some w'" by simp
  moreover have "reify (Suc n) h0 w = Some tw"
    by (rule reify_mono [OF tw])
  moreover have "reify (Suc n) h1 w' = Some tw"
    by (rule reify_mono [OF copy_in_reify [OF tw cw]])
  ultimately show ?thesis by blast
qed

text \<open>
  C5. Let the two tables be dictionaries in the store whose contents are finitely nested
  within the recursion limit. Then \<open>presets\<close> returns a reference \<open>r\<close> to a dictionary
  that is the union of the two tables as a deep copy. Its key set is the union of the key
  sets of the two tables. Its value at a key that only the backbone table has is equal (as
  a tree) to the backbone table's entry, and its value at a key of the classifier table
  (whose keys are distinct, as those of a Python dictionary are) is equal to the classifier
  table's entry. The call leaves every object of the registry as it was, and every object
  that can be reached from \<open>r\<close>, the returned dictionary and everything nested in it, was
  allocated by the call: none of them is an object of the registry. So overwriting any
  object reachable from \<open>r\<close> leaves the registry unchanged; and in every later store that
  still holds the registry objects (whatever happened to the copy and to the rest of the
  store) a call of \<open>presets\<close> returns a table with the same value \<open>T\<close> as the first call
  returned.
\<close>

theorem presets_deep_copy:
  assumes bi: "dict_at h0 bp = Some bi" and ci: "dict_at h0 cp = Some ci"
    and rb: "reify limit h0 (PRef bp) = Some tb" and rc: "reify limit h0 (PRef cp) = Some tc"
  shows "\<exists>r h1 items T. presets limit bp cp h0 = Inr (PRef r, h1)
           \<and> dict_at h1 r = Some items
           \<and> set (map fst items) = set (map fst bi) \<union> set (map fst ci)
           \<and> (\<forall>k w. k \<notin> set (map fst ci) \<longrightarrow> map_of bi k = Some w \<longrightarrow>
                 (\<exists>w' tw. map_of items k = Some w' \<and> reify limit h0 w = Some tw
                    \<and> reify limit h1 w' = Some tw))
           \<and> (distinct (map fst ci) \<longrightarrow>
                 (\<forall>k w. map_of ci k = Some w \<longrightarrow>
                    (\<exists>w' tw. map_of items k = Some w' \<and> reify limit h0 w = Some tw
                       \<and> reify limit h1 w' = Some tw)))
           \<and> take (length h0) h1 = h0
           \<and> reify limit h1 (PRef r) = Some T
           \<and> (\<forall>a. reach h1 (PRef r) a \<longrightarrow> length h0 \<le> a \<and> a < length h1)
           \<and> (\<forall>a obj. reach h1 (PRef r) a \<longrightarrow> take (length h0) (h1[a := obj]) = h0)
           \<and> (\<forall>h2. take (length h0) h2 = h0 \<longrightarrow>
                 (\<exists>r' h3. presets limit bp cp h2 = Inr (PRef r', h3)
                    \<and> reify limit h3 (PRef r') = Some T))"
proof -
  let ?m = "dict_merge bi ci"
  from presets_result [OF assms] obtain r h1 ri n ts ext
    where limit: "limit = Suc n"
      and p: "presets limit bp cp h0 = Inr (PRef r, h1)"
      and h1: "h1 = h0 @ PDict ?m # ext"
      and r: "r < length h1" and ri: "h1 ! r = PDict ri"
      and ks: "map fst ri = map fst ?m"
      and ts: "list_all2 (\<lambda>v t. reify n h0 v = Some t) (map snd ?m) ts"
      and cs: "list_all2 (copy_in (Suc (length h0)) {} h1) ts (map snd ri)"
      and c: "copy_in (Suc (length h0)) {} h1 (Node (DictOf (map fst ?m)) ts) (PRef r)"
      and rT: "reify limit h1 (PRef r) = Some (Node (DictOf (map fst ?m)) ts)"
    by blast
  let ?T = "Node (DictOf (map fst ?m)) ts"
  have d: "dict_at h1 r = Some ri"
    using r ri by (simp add: dict_at_Some)
  have "set (map fst ri) = fst ` set ?m"
    unfolding ks by simp
  then have keys: "set (map fst ri) = set (map fst bi) \<union> set (map fst ci)"
    by (simp add: dict_merge_keys)
  have entry: "\<And>k w. map_of ?m k = Some w \<Longrightarrow>
      \<exists>w' tw. map_of ri k = Some w' \<and> reify limit h0 w = Some tw \<and> reify limit h1 w' = Some tw"
    unfolding limit by (rule merged_entry_copied [OF ks ts cs])
  have from_b: "\<forall>k w. k \<notin> set (map fst ci) \<longrightarrow> map_of bi k = Some w \<longrightarrow>
      (\<exists>w' tw. map_of ri k = Some w' \<and> reify limit h0 w = Some tw \<and> reify limit h1 w' = Some tw)"
  proof (intro allI impI)
    fix k w assume "k \<notin> set (map fst ci)" and w: "map_of bi k = Some w"
    then have "k \<notin> fst ` set ci" by simp
    then have "map_of ?m k = Some w" using w by (simp add: dict_merge_other)
    then show "\<exists>w' tw. map_of ri k = Some w' \<and> reify limit h0 w = Some tw
        \<and> reify limit h1 w' = Some tw"
      by (rule entry)
  qed
  have from_c: "distinct (map fst ci) \<longrightarrow>
      (\<forall>k w. map_of ci k = Some w \<longrightarrow>
         (\<exists>w' tw. map_of ri k = Some w' \<and> reify limit h0 w = Some tw
            \<and> reify limit h1 w' = Some tw))"
  proof (intro allI impI)
    fix k w assume dist: "distinct (map fst ci)" and w: "map_of ci k = Some w"
    have "map_of ?m k = Some w" by (rule dict_merge_second [OF dist w])
    then show "\<exists>w' tw. map_of ri k = Some w' \<and> reify limit h0 w = Some tw
        \<and> reify limit h1 w' = Some tw"
      by (rule entry)
  qed
  have tk: "take (length h0) h1 = h0"
    by (simp add: h1)
  have fresh: "\<forall>a. reach h1 (PRef r) a \<longrightarrow> length h0 \<le> a \<and> a < length h1"
  proof (intro allI impI)
    fix a assume "reach h1 (PRef r) a"
    from reach_fresh [OF c this] show "length h0 \<le> a \<and> a < length h1" by simp
  qed
  have mut: "\<forall>a obj. reach h1 (PRef r) a \<longrightarrow> take (length h0) (h1[a := obj]) = h0"
    using fresh tk by simp
  have again: "\<forall>h2. take (length h0) h2 = h0 \<longrightarrow>
      (\<exists>r' h3. presets limit bp cp h2 = Inr (PRef r', h3) \<and> reify limit h3 (PRef r') = Some ?T)"
    using presets_again [OF assms ts limit] by blast
  show ?thesis
    by (rule exI [of _ r], rule exI [of _ h1], rule exI [of _ ri], rule exI [of _ ?T],
        intro conjI)
      (fact p d keys from_b from_c tk rT fresh mut again)+
qed

theorem presets_deep_copy_witness:
  "\<exists>r h1 items T wb wc. presets 10 2 4 wide_registry_heap = Inr (PRef r, h1)
     \<and> dict_at h1 r = Some items
     \<and> set (map fst items) = {''bert_tiny_en_uncased'', ''bert_base_en''}
     \<and> map_of items ''bert_base_en'' = Some wb
     \<and> reify 10 h1 wb =
         Some (Node (DictOf [''config'']) [Node (DictOf [''num_layers'']) [Leaf (AInt 2)]])
     \<and> map_of items ''bert_tiny_en_uncased'' = Some wc
     \<and> reify 10 h1 wc =
         Some (Node (DictOf [''config'', ''num_classes''])
                 [Node (DictOf [''num_layers'']) [Leaf (AInt 2)], Leaf (AInt 2)])
     \<and> 5 \<le> r
     \<and> take 5 (h1[r := PDict []]) = wide_registry_heap
     \<and> reify 10 h1 (PRef r) = Some T
     \<and> (\<exists>r' h3. presets 10 2 4 (h1[r := PDict []]) = Inr (PRef r', h3)
            \<and> reify 10 h3 (PRef r') = Some T)"
proof -
  let ?bi = "[(''bert_tiny_en_uncased'', PRef 1), (''bert_base_en'', PRef 1)]"
  let ?ci = "[(''bert_tiny_en_uncased'', PRef 3 :: pyval)]"
  have len: "length wide_registry_heap = 5"
    by (simp add: wide_registry_heap_def)
  have bi: "dict_at wide_registry_heap 2 = Some ?bi"
    by (simp add: dict_at_def wide_registry_heap_def)
  have ci: "dict_at wide_registry_heap 4 = Some ?ci"
    by (simp add: dict_at_def wide_registry_heap_def)
  have rb: "reify 10 wide_registry_heap (PRef 2) =
      Some (Node (DictOf [''bert_tiny_en_uncased'', ''bert_base_en''])
              [Node (DictOf [''config'']) [Node (DictOf [''num_layers'']) [Leaf (AInt 2)]],
               Node (DictOf [''config'']) [Node (DictOf [''num_layers'']) [Leaf (AInt 2)]]])"
    by code_simp
  have rc: "reify 10 wide_registry_heap (PRef 4) =
      Some (Node (DictOf [''bert_tiny_en_uncased''])
              [Node (DictOf [''config'', ''num_classes''])
                 [Node (DictOf [''num_layers'']) [Leaf (AInt 2)], Leaf (AInt 2)]])"
    by code_simp
  have eb: "reify 10 wide_registry_heap (PRef 1) =
      Some (Node (DictOf [''config'']) [Node (DictOf [''num_layers'']) [Leaf (AInt 2)]])"
    by code_simp
  have ec: "reify 10 wide_registry_heap (PRef 3) =
      Some (Node (DictOf [''config'', ''num_classes''])
              [Node (DictOf [''num_layers'']) [Leaf (AInt 2)], Leaf (AInt 2)])"
    by code_simp
  from presets_deep_copy [OF bi ci rb rc] obtain r h1 items T
    where p: "presets 10 2 4 wide_registry_heap = Inr (PRef r, h1)"
      and d: "dict_at h1 r = Some items"
      and keys: "set (map fst items) = set (map fst ?bi) \<union> set (map fst ?ci)"
      and from_b: "\<forall>k w. k \<notin> set (map fst ?ci) \<longrightarrow> map_of ?bi k = Some w \<longrightarrow>
          (\<exists>w' tw. map_of items k = Some w' \<and> reify 10 wide_registry_heap w = Some tw
             \<and> reify 10 h1 w' = Some tw)"
      and from_c: "distinct (map fst ?ci) \<longrightarrow>
          (\<forall>k w. map_of ?ci k = Some w \<longrightarrow>
             (\<exists>w' tw. map_of items k = Some w' \<and> reify 10 wide_registry_heap w = Some tw
                \<and> reify 10 h1 w' = Some tw))"
      and rT: "reify 10 h1 (PRef r) = Some T"
      and fresh: "\<forall>a. reach h1 (PRef r) a \<longrightarrow> length wide_registry_heap \<le> a \<and> a < length h1"
      and mut: "\<forall>a obj. reach h1 (PRef r) a \<longrightarrow>
                  take (length wide_registry_heap) (h1[a := obj]) = wide_registry_heap"
      and again: "\<forall>h2. take (length wide_registry_heap) h2 = wide_registry_heap \<longrightarrow>
                 (\<exists>r' h3. presets 10 2 4 h2 = Inr (PRef r', h3) \<and> reify 10 h3 (PRef r') = Some T)"
    by blast
  have ks: "set (map fst items) = {''bert_tiny_en_uncased'', ''bert_base_en''}"
    using keys by auto
  have "''bert_base_en'' \<notin> set (map fst ?ci)" and "map_of ?bi ''bert_base_en'' = Some (PRef 1)"
    by simp_all
  with from_b obtain wb tb where wb: "map_of items ''bert_base_en'' = Some wb"
    and "reify 10 wide_registry_heap (PRef 1) = Some tb" and "reify 10 h1 wb = Some tb"
    by blast
  with eb have rwb: "reify 10 h1 wb =
      Some (Node (DictOf [''config'']) [Node (DictOf [''num_layers'']) [Leaf (AInt 2)]])"
    by simp
  have "distinct (map fst ?ci)" and "map_of ?ci ''bert_tiny_en_uncased'' = Some (PRef 3)"
    by simp_all
  with from_c obtain wc tc where wc: "map_of items ''bert_tiny_en_uncased'' = Some wc"
    and "reify 10 wide_registry_heap (PRef 3) = Some tc" and "reify 10 h1 wc = Some tc"
    by blast
  with ec have rwc: "reify 10 h1 wc =
      Some (Node (DictOf [''config'', ''num_classes''])
              [Node (DictOf [''num_layers'']) [Leaf (AInt 2)], Leaf (AInt 2)])"
    by simp
  have root: "reach h1 (PRef r) r"
    by (rule reach_root) simp
  from fresh root have r5: "5 \<le> r" by (simp add: len)
  from mut root have tk: "take 5 (h1[r := PDict []]) = wide_registry_heap"
    by (simp add: len)
  from again tk have ag: "\<exists>r' h3. presets 10 2 4 (h1[r := PDict []]) = Inr (PRef r', h3)
      \<and> reify 10 h3 (PRef r') = Some T"
    by (simp add: len)
  show ?thesis
    by (rule exI [of _ r], rule exI [of _ h1], rule exI [of _ items], rule exI [of _ T],
        rule exI [of _ wb], rule exI [of _ wc], intro conjI)
      (fact p d ks wb rwb wc rwc r5 tk rT ag)+
qed

text \<open>
  C10. Under the same conditions, for every key \<open>k\<close> of the classifier table (whose keys
  are distinct, as those of a Python dictionary are), in particular for every key that is
  also a key of the backbone table, the table returned by \<open>presets\<close> maps \<open>k\<close> to a value
  that is equal (as a tree) to the classifier table's entry for \<open>k\<close>.
\<close>

theorem classifier_presets_take_precedence:
  assumes bi: "dict_at h0 bp = Some bi" and ci: "dict_at h0 cp = Some ci"
    and rb: "reify limit h0 (PRef bp) = Some tb" and rc: "reify limit h0 (PRef cp) = Some tc"
    and dist: "distinct (map fst ci)"
    and k: "map_of ci k = Some w"
  shows "\<exists>r h1 items w' tw. presets limit bp cp h0 = Inr (PRef r, h1)
           \<and> dict_at h1 r = Some items
           \<and> map_of items k = Some w'
           \<and> reify limit h0 w = Some tw
           \<and> reify limit h1 w' = Some tw"
proof -
  let ?m = "dict_merge bi ci"
  let ?n0 = "Suc (length h0)"
  from presets_result [OF bi ci rb rc] obtain r h1 ri n ts
    where limit: "limit = Suc n"
      and p: "presets limit bp cp h0 = Inr (PRef r, h1)"
      and r: "r < length h1" and ri: "h1 ! r = PDict ri"
      and ks: "map fst ri = map fst ?m"
      and ts: "list_all2 (\<lambda>v t. reify n h0 v = Some t) (map snd ?m) ts"
      and cs: "list_all2 (copy_in ?n0 {} h1) ts (map snd ri)"
    by blast
  have d: "dict_at h1 r = Some ri"
    using r ri by (simp add: dict_at_Some)
  let ?R = "\<lambda>v v'. \<exists>t. reify n h0 v = Some t \<and> copy_in ?n0 {} h1 t v'"
  have rel: "list_all2 ?R (map snd ?m) (map snd ri)"
    unfolding list_all2_conv_all_nth
  proof (intro conjI allI impI)
    show "length (map snd ?m) = length (map snd ri)"
      using arg_cong [OF ks, of length] by simp
  next
    fix i assume i: "i < length (map snd ?m)"
    then have i': "i < length ts" using list_all2_lengthD [OF ts] by simp
    from list_all2_nthD [OF ts i] list_all2_nthD [OF cs i']
    show "\<exists>t. reify n h0 (map snd ?m ! i) = Some t \<and> copy_in ?n0 {} h1 t (map snd ri ! i)"
      by blast
  qed
  have mk: "map_of (zip (map fst ?m) (map snd ?m)) k = Some w"
    using dict_merge_second [OF dist k, of bi] by (simp add: zip_map_fst_snd)
  from map_of_zip_rel [OF _ rel mk] obtain w' tw
    where w': "map_of (zip (map fst ?m) (map snd ri)) k = Some w'"
      and tw: "reify n h0 w = Some tw" and cw: "copy_in ?n0 {} h1 tw w'"
    by auto
  have "zip (map fst ?m) (map snd ri) = ri"
    unfolding ks [symmetric] by (simp add: zip_map_fst_snd)
  with w' have "map_of ri k = Some w'" by simp
  moreover have "reify limit h0 w = Some tw"
    unfolding limit by (rule reify_mono [OF tw])
  moreover have "reify limit h1 w' = Some tw"
    unfolding limit by (rule reify_mono [OF copy_in_reify [OF tw cw]])
  ultimately show ?thesis using p d by blast
qed

theorem classifier_presets_take_precedence_witness:
  "\<exists>r h1 items w'. presets 10 2 4 registry_heap = Inr (PRef r, h1)
     \<and> dict_at h1 r = Some items
     \<and> map_of items ''bert_tiny_en_uncased'' = Some w'
     \<and> reify 10 h1 w' =
         Some (Node (DictOf [''config'', ''num_classes''])
                 [Node (DictOf [''num_layers'']) [Leaf (AInt 2)], Leaf (AInt 2)])
     \<and> reify 10 registry_heap (PRef 1) =
         Some (Node (DictOf [''config'']) [Node (DictOf [''num_layers'']) [Leaf (AInt 2)]])"
proof -
  have bi: "dict_at registry_heap 2 = Some [(''bert_tiny_en_uncased'', PRef 1)]"
    by (simp add: dict_at_def registry_heap_def)
  have ci: "dict_at registry_heap 4 =
      Some [(''bert_tiny_en_uncased'', PRef 3), (''bert_tiny_en_uncased_sst2'', PRef 3)]"
    by (simp add: dict_at_def registry_heap_def)
  have rb: "reify 10 registry_heap (PRef 2) =
      Some (Node (DictOf [''bert_tiny_en_uncased''])
              [Node (DictOf [''config'']) [Node (DictOf [''num_layers'']) [Leaf (AInt 2)]]])"
    by code_simp
  have rc: "reify 10 registry_heap (PRef 4) =
      Some (Node (DictOf [''bert_tiny_en_uncased'', ''bert_tiny_en_uncased_sst2''])
              [Node (DictOf [''config'', ''num_classes''])
                 [Node (DictOf [''num_layers'']) [Leaf (AInt 2)], Leaf (AInt 2)],
               Node (DictOf [''config'', ''num_classes''])
                 [Node (DictOf [''num_layers'']) [Leaf (AInt 2)], Leaf (AInt 2)]])"
    by code_simp
  have dist: "distinct (map fst [(''bert_tiny_en_uncased'', PRef 3),
      (''bert_tiny_en_uncased_sst2'', PRef 3 :: pyval)])"
    by simp
  have k: "map_of [(''bert_tiny_en_uncased'', PRef 3), (''bert_tiny_en_uncased_sst2'', PRef 3)]
      ''bert_tiny_en_uncased'' = Some (PRef 3)"
    by simp
  have entry: "reify 10 registry_heap (PRef 3) =
      Some (Node (DictOf [''config'', ''num_classes''])
              [Node (DictOf [''num_layers'']) [Leaf (AInt 2)], Leaf (AInt 2)])"
    by code_simp
  have other: "reify 10 registry_heap (PRef 1) =
      Some (Node (DictOf [''config'']) [Node (DictOf [''num_layers'']) [Leaf (AInt 2)]])"
    by code_simp
  from classifier_presets_take_precedence [OF bi ci rb rc dist k] obtain r h1 items w' tw
    where "presets 10 2 4 registry_heap = Inr (PRef r, h1)"
      and "dict_at h1 r = Some items"
      and "map_of items ''bert_tiny_en_uncased'' = Some w'"
      and "reify 10 registry_heap (PRef 3) = Some tw"
      and "reify 10 h1 w' = Some tw"
    by blast
  with entry other show ?thesis by auto
qed

text \<open>
  C6. Under the same conditions, \<open>from_preset\<close> with a name that is a key of neither
  table fails with \<open>KeyError name\<close>, whatever the other arguments are: no classifier is
  built.
\<close>

theorem unknown_preset_fails:
  assumes bi: "dict_at h0 bp = Some bi" and ci: "dict_at h0 cp = Some ci"
    and rb: "reify limit h0 (PRef bp) = Some tb" and rc: "reify limit h0 (PRef cp) = Some tc"
    and unknown: "name \<notin> set (map fst bi) \<union> set (map fst ci)"
  shows "from_preset env load_backbone limit bp cp h0 name nc pp = Inl (KeyError name)"
proof -
  let ?m = "dict_merge bi ci"
  from presets_result [OF bi ci rb rc] obtain r h1 ri
    where p: "presets limit bp cp h0 = Inr (PRef r, h1)"
      and r: "r < length h1" and ri: "h1 ! r = PDict ri"
      and ks: "map fst ri = map fst ?m"
    by blast
  have d: "dict_at h1 r = Some ri"
    using r ri by (simp add: dict_at_Some)
  have "set (map fst ri) = fst ` set ?m"
    unfolding ks by simp
  with unknown have "name \<notin> fst ` set ri"
    by (simp add: dict_merge_keys)
  then have "map_of ri name = None"
    by (simp add: map_of_eq_None_iff)
  then have "getitem ri name = Inl (KeyError name)"
    by (simp add: getitem_def)
  with p d show ?thesis
    by (simp add: from_preset_def)
qed

theorem unknown_preset_fails_witness:
  "from_preset strict_env (\<lambda>h v. Inr test_backbone) 10 2 4 registry_heap ''bert_huge_en'' 4 None
     = Inl (KeyError ''bert_huge_en'')"
proof -
  have bi: "dict_at registry_heap 2 = Some [(''bert_tiny_en_uncased'', PRef 1)]"
    by (simp add: dict_at_def registry_heap_def)
  have ci: "dict_at registry_heap 4 =
      Some [(''bert_tiny_en_uncased'', PRef 3), (''bert_tiny_en_uncased_sst2'', PRef 3)]"
    by (simp add: dict_at_def registry_heap_def)
  have rb: "reify 10 registry_heap (PRef 2) =
      Some (Node (DictOf [''bert_tiny_en_uncased''])
              [Node (DictOf [''config'']) [Node (DictOf [''num_layers'']) [Leaf (AInt 2)]]])"
    by code_simp
  have rc: "reify 10 registry_heap (PRef 4) =
      Some (Node (DictOf [''bert_tiny_en_uncased'', ''bert_tiny_en_uncased_sst2''])
              [Node (DictOf [''config'', ''num_classes''])
                 [Node (DictOf [''num_layers'']) [Leaf (AInt 2)], Leaf (AInt 2)],
               Node (DictOf [''config'', ''num_classes''])
                 [Node (DictOf [''num_layers'']) [Leaf (AInt 2)], Leaf (AInt 2)]])"
    by code_simp
  have unknown: "''bert_huge_en'' \<notin>
      set (map fst [(''bert_tiny_en_uncased'', PRef 1)]) \<union>
      set (map fst [(''bert_tiny_en_uncased'', PRef 3), (''bert_tiny_en_uncased_sst2'', PRef 3)])"
    by simp
  show ?thesis
    by (rule unknown_preset_fails [OF bi ci rb rc unknown])
qed

end
